theory Spec2Isabelle
  imports Complex_Main "HOL-Library.Log_Nat"
begin

section \<open>Data model\<close>

text \<open>
  The engine stores JavaScript numbers, which are doubles; the fields of a layout hold
  finite ones, given by their values (section \<open>JavaScript numbers\<close>).
  Focus keys and directions are strings, DOM nodes and callback closures are opaque
  handles.  The fields \<open>x\<close>, \<open>y\<close> and \<open>node\<close> of a layout are called
  \<open>layout_x\<close>, \<open>layout_y\<close> and \<open>layout_node\<close>, the corners \<open>a\<close>, \<open>b\<close> and
  their coordinates \<open>x\<close>, \<open>y\<close> are called \<open>corner_a\<close>, \<open>corner_b\<close>, \<open>coord_x\<close>,
  \<open>coord_y\<close>; all other names are those of the source.
\<close>

type_synonym node = nat
type_synonym handler = nat

record FocusableComponentLayout =
  left :: rat
  top :: rat
  width :: rat
  height :: rat
  layout_x :: rat
  layout_y :: rat
  layout_node :: node

record CornerCoordinates =
  coord_x :: rat
  coord_y :: rat

record Corners =
  corner_a :: CornerCoordinates
  corner_b :: CornerCoordinates

record FocusableComponent =
  focusKey :: string
  node :: node
  parentFocusKey :: string
  onEnterPress :: handler
  onEnterRelease :: handler
  onArrowPress :: handler
  onFocus :: handler
  onBlur :: handler
  onNavigate :: handler
  onUpdateFocus :: handler
  onUpdateHasFocusedChild :: handler
  saveLastFocusedChild :: bool
  trackChildren :: bool
  preferredChildFocusKey :: "string option"
  focusable :: bool
  isFocusBoundary :: bool
  pointerSupport :: bool
  autoRestoreFocus :: bool
  lastFocusedChildKey :: "string option"
  layout :: FocusableComponentLayout
  layoutUpdated :: bool

section \<open>JavaScript numbers\<close>

text \<open>
  A JavaScript number is an IEEE 754 double.  A finite double is modelled by its value, a
  rational; the two zeros are one.  \<open>fl\<close> rounds a rational to the nearest double, ties
  to the even significand: \<open>expo x\<close> is the exponent \<open>e\<close> with
  \<open>2 ^ e \<le> x < 2 ^ (e + 1)\<close>, \<open>quantum x\<close> the spacing of the doubles around \<open>x\<close>
  (\<open>2 ^ (e - 52)\<close>, and \<open>2 ^ (- 1074)\<close> below the normal range), and a result that rounds
  to \<open>2 ^ 1024\<close> or beyond is infinite.  The infinities are written \<open>2 ^ 1024\<close> and
  \<open>- 2 ^ 1024\<close>; they compare with the finite doubles as the infinities do.

  \<open>fadd\<close>, \<open>fsub\<close>, \<open>fmul\<close> and \<open>fdiv\<close> are \<open>+\<close>, \<open>-\<close>, \<open>*\<close> and \<open>/\<close> on finite
  doubles (the engine divides by the constants 5 and 1 only).  Comparisons, \<open>Math.abs\<close>,
  \<open>Math.min\<close> and \<open>Math.max\<close> are exact.  The arithmetic of an infinite operand and
  \<open>NaN\<close> are outside the model: where the result of an operation is the operand of another,
  the theorems bound the layouts (\<open>inRange\<close>) so that no result is infinite.
\<close>

definition expo :: "rat \<Rightarrow> int" where
  "expo x = (let (p, q) = quotient_of x; d = bitlen p - bitlen q
             in if 2 powi d \<le> x then d else d - 1)"

definition roundEven :: "rat \<Rightarrow> int" where
  "roundEven z = (let f = \<lfloor>z\<rfloor>; d = z - of_int f
                  in if d < 1 / 2 then f else if 1 / 2 < d then f + 1
                     else if even f then f else f + 1)"

definition quantum :: "rat \<Rightarrow> rat" where
  "quantum x = 2 powi (max (expo \<bar>x\<bar>) (- 1022) - 52)"

definition fl :: "rat \<Rightarrow> rat" where
  "fl x = (if x = 0 then 0
           else (let y = of_int (roundEven (x / quantum x)) * quantum x
                 in if 2 ^ 1024 \<le> \<bar>y\<bar> then sgn x * 2 ^ 1024 else y))"

definition fadd :: "rat \<Rightarrow> rat \<Rightarrow> rat" where "fadd a b = fl (a + b)"
definition fsub :: "rat \<Rightarrow> rat \<Rightarrow> rat" where "fsub a b = fl (a - b)"
definition fmul :: "rat \<Rightarrow> rat \<Rightarrow> rat" where "fmul a b = fl (a * b)"
definition fdiv :: "rat \<Rightarrow> rat \<Rightarrow> rat" where "fdiv a b = fl (a / b)"

section \<open>helpers.ts: the directional ranking\<close>

text \<open>The literal \<open>0.2\<close> is the double nearest to \<open>2 / 10\<close>; 5 and 1 are doubles.\<close>

definition DIRECTION_LEFT :: string where "DIRECTION_LEFT = ''left''"
definition DIRECTION_RIGHT :: string where "DIRECTION_RIGHT = ''right''"
definition DIRECTION_UP :: string where "DIRECTION_UP = ''up''"
definition DIRECTION_DOWN :: string where "DIRECTION_DOWN = ''down''"

definition ADJACENT_SLICE_THRESHOLD :: rat where "ADJACENT_SLICE_THRESHOLD = fl (2 / 10)"
definition ADJACENT_SLICE_WEIGHT :: rat where "ADJACENT_SLICE_WEIGHT = 5"
definition DIAGONAL_SLICE_WEIGHT :: rat where "DIAGONAL_SLICE_WEIGHT = 1"
definition MAIN_COORDINATE_WEIGHT :: rat where "MAIN_COORDINATE_WEIGHT = 5"

text \<open>\<open>corner[coordinate]\<close> with \<open>coordinate\<close> one of \<open>'x'\<close>, \<open>'y'\<close>; the flag says
  whether the coordinate read is \<open>'y'\<close>.\<close>

definition coordinate_of :: "bool \<Rightarrow> CornerCoordinates \<Rightarrow> rat" where
  "coordinate_of readY c = (if readY then coord_y c else coord_x c)"

definition getPrimaryAxisDistance :: "Corners \<Rightarrow> Corners \<Rightarrow> bool \<Rightarrow> rat" where
  "getPrimaryAxisDistance refCorners siblingCorners isVerticalDirection =
     (let refA = corner_a refCorners;
          siblingA = corner_a siblingCorners;
          readY = isVerticalDirection
      in \<bar>fsub (coordinate_of readY siblingA) (coordinate_of readY refA)\<bar>)"

definition getSecondaryAxisDistance :: "Corners \<Rightarrow> Corners \<Rightarrow> bool \<Rightarrow> rat" where
  "getSecondaryAxisDistance refCorners siblingCorners isVerticalDirection =
     (let readY = \<not> isVerticalDirection;
          refCoordinateA = coordinate_of readY (corner_a refCorners);
          refCoordinateB = coordinate_of readY (corner_b refCorners);
          siblingCoordinateA = coordinate_of readY (corner_a siblingCorners);
          siblingCoordinateB = coordinate_of readY (corner_b siblingCorners)
      in Min (set [\<bar>fsub siblingCoordinateA refCoordinateA\<bar>,
                   \<bar>fsub siblingCoordinateA refCoordinateB\<bar>,
                   \<bar>fsub siblingCoordinateB refCoordinateA\<bar>,
                   \<bar>fsub siblingCoordinateB refCoordinateB\<bar>]))"

definition corner :: "rat \<Rightarrow> rat \<Rightarrow> CornerCoordinates" where
  "corner cx cy = \<lparr>coord_x = cx, coord_y = cy\<rparr>"

definition getRefCorners :: "string \<Rightarrow> bool \<Rightarrow> FocusableComponentLayout \<Rightarrow> Corners" where
  "getRefCorners direction isSibling lay =
     (let itemX = left lay; itemY = top lay; itemWidth = width lay; itemHeight = height lay
      in if direction = DIRECTION_UP then
           (let cy = (if isSibling then fadd itemY itemHeight else itemY)
            in \<lparr>corner_a = corner itemX cy, corner_b = corner (fadd itemX itemWidth) cy\<rparr>)
         else if direction = DIRECTION_DOWN then
           (let cy = (if isSibling then itemY else fadd itemY itemHeight)
            in \<lparr>corner_a = corner itemX cy, corner_b = corner (fadd itemX itemWidth) cy\<rparr>)
         else if direction = DIRECTION_LEFT then
           (let cx = (if isSibling then fadd itemX itemWidth else itemX)
            in \<lparr>corner_a = corner cx itemY, corner_b = corner cx (fadd itemY itemHeight)\<rparr>)
         else if direction = DIRECTION_RIGHT then
           (let cx = (if isSibling then itemX else fadd itemX itemWidth)
            in \<lparr>corner_a = corner cx itemY, corner_b = corner cx (fadd itemY itemHeight)\<rparr>)
         else \<lparr>corner_a = corner 0 0, corner_b = corner 0 0\<rparr>)"

definition getIsAdjacentSlice :: "Corners \<Rightarrow> Corners \<Rightarrow> bool \<Rightarrow> bool" where
  "getIsAdjacentSlice refCorners siblingCorners isVerticalDirection =
     (let readY = \<not> isVerticalDirection;
          refCoordinateA = coordinate_of readY (corner_a refCorners);
          refCoordinateB = coordinate_of readY (corner_b refCorners);
          siblingCoordinateA = coordinate_of readY (corner_a siblingCorners);
          siblingCoordinateB = coordinate_of readY (corner_b siblingCorners);
          thresholdDistance =
            fmul (fsub refCoordinateB refCoordinateA) ADJACENT_SLICE_THRESHOLD;
          intersectionLength =
            max 0 (fsub (min refCoordinateB siblingCoordinateB)
                        (max refCoordinateA siblingCoordinateA))
      in intersectionLength \<ge> thresholdDistance)"

text \<open>The iteratee of \<open>sortBy\<close> in \<open>sortSiblingsByPriority\<close>: the priority of one sibling.\<close>

definition priority :: "FocusableComponentLayout \<Rightarrow> string \<Rightarrow> FocusableComponent \<Rightarrow> rat" where
  "priority currentLayout direction sibling =
     (let isVerticalDirection = (direction = DIRECTION_DOWN \<or> direction = DIRECTION_UP);
          refCorners = getRefCorners direction False currentLayout;
          siblingCorners = getRefCorners direction True (layout sibling);
          isAdjacentSlice = getIsAdjacentSlice refCorners siblingCorners isVerticalDirection;
          primaryAxisFunction =
            (if isAdjacentSlice then getPrimaryAxisDistance else getSecondaryAxisDistance);
          secondaryAxisFunction =
            (if isAdjacentSlice then getSecondaryAxisDistance else getPrimaryAxisDistance);
          primaryAxisDistance = primaryAxisFunction refCorners siblingCorners isVerticalDirection;
          secondaryAxisDistance =
            secondaryAxisFunction refCorners siblingCorners isVerticalDirection;
          totalDistancePoints =
            fadd (fmul primaryAxisDistance MAIN_COORDINATE_WEIGHT) secondaryAxisDistance
      in fdiv (fadd totalDistancePoints 1)
           (if isAdjacentSlice then ADJACENT_SLICE_WEIGHT else DIAGONAL_SLICE_WEIGHT))"

text \<open>lodash \<open>sortBy\<close> is a stable ascending sort on the iteratee's value, and \<open>first\<close>
  is the head of a list or \<open>undefined\<close>.\<close>

definition sortBy :: "'a list \<Rightarrow> ('a \<Rightarrow> rat) \<Rightarrow> 'a list" where
  "sortBy xs iteratee = sort_key iteratee xs"

definition first :: "'a list \<Rightarrow> 'a option" where
  "first xs = (case xs of [] \<Rightarrow> None | v # _ \<Rightarrow> Some v)"

definition sortSiblingsByPriority ::
  "FocusableComponent list \<Rightarrow> FocusableComponentLayout \<Rightarrow> string \<Rightarrow> FocusableComponent list" where
  "sortSiblingsByPriority siblings currentLayout direction =
     sortBy siblings (priority currentLayout direction)"

section \<open>The service state\<close>

text \<open>
  \<open>focusableComponents\<close> is a JavaScript object used as a dictionary from focus key to
  component.  Its iteration order (insertion order, for keys that are not array indices)
  decides ties in the rankings, so it is a list of components in insertion order, looked
  up by their \<open>focusKey\<close> field, which is the key \<open>addFocusable\<close> stores them under.
  \<open>currentFocusKey\<close> is the field \<open>this.focusKey\<close> (\<open>null\<close> is \<open>None\<close>).

  What the engine does to the outside is recorded in the state: \<open>callbacks\<close> is the trace
  of component callbacks invoked, \<open>measured\<close> the trace of calls to the external
  \<open>measureLayout\<close>, \<open>onmouseenter\<close> the set of DOM nodes that carry the engine's
  pointer handler.  A callback is an opaque closure of the host: invoking it is recorded
  and has no effect on the engine's state.  The \<open>focusDetails\<close> argument is passed
  through to the callbacks untouched and is left out.
\<close>

datatype callback =
    OnUpdateFocus string bool
  | OnFocus string "FocusableComponentLayout option"
  | OnBlur string "FocusableComponentLayout option"
  | OnUpdateHasFocusedChild string bool

datatype error = TypeError

record service =
  focusableComponents :: "FocusableComponent list"
  currentFocusKey :: "string option"
  parentsHavingFocusedChild :: "string list"
  enabled :: bool
  onmouseenter :: "node set"
  measureLayout :: "node \<Rightarrow> FocusableComponentLayout"
  measured :: "node list"
  callbacks :: "callback list"

text \<open>\<open>obj[key]\<close> with a \<open>null\<close> key reads the property named \<open>"null"\<close>.\<close>

definition propertyKey :: "string option \<Rightarrow> string" where
  "propertyKey k = (case k of None \<Rightarrow> ''null'' | Some v \<Rightarrow> v)"

definition getComponent :: "string \<Rightarrow> FocusableComponent list \<Rightarrow> FocusableComponent option" where
  "getComponent k cs = find (\<lambda>c. focusKey c = k) cs"

text \<open>An assignment to a field of the component object stored under a key.\<close>

definition modifyComponent ::
  "string \<Rightarrow> (FocusableComponent \<Rightarrow> FocusableComponent) \<Rightarrow>
   FocusableComponent list \<Rightarrow> FocusableComponent list" where
  "modifyComponent k f cs = map (\<lambda>c. if focusKey c = k then f c else c) cs"

text \<open>\<open>delete obj[key]\<close>.\<close>

definition deleteComponent :: "string \<Rightarrow> FocusableComponent list \<Rightarrow> FocusableComponent list" where
  "deleteComponent k cs = filter (\<lambda>c. focusKey c \<noteq> k) cs"

text \<open>lodash \<open>difference\<close>: the elements of the first array that are not in the second.\<close>

definition difference :: "'a list \<Rightarrow> 'a list \<Rightarrow> 'a list" where
  "difference xs ys = filter (\<lambda>v. v \<notin> set ys) xs"

section \<open>The service: layout, leaf resolution, focus\<close>

definition updateLayout :: "string \<Rightarrow> service \<Rightarrow> service" where
  "updateLayout k s =
     (case getComponent k (focusableComponents s) of
        None \<Rightarrow> s
      | Some component \<Rightarrow>
          if layoutUpdated component then s
          else s\<lparr>focusableComponents :=
                   modifyComponent k
                     (\<lambda>c. c\<lparr>layout := (measureLayout s (node c))\<lparr>layout_node := node c\<rparr>\<rparr>)
                     (focusableComponents s),
                 measured := measured s @ [node component]\<rparr>)"

definition updateAllLayouts :: "service \<Rightarrow> service" where
  "updateAllLayouts s = fold (\<lambda>c. updateLayout (focusKey c)) (focusableComponents s) s"

definition getNodeLayoutByFocusKey ::
  "string \<Rightarrow> service \<Rightarrow> FocusableComponentLayout option \<times> service" where
  "getNodeLayoutByFocusKey k s =
     (case getComponent k (focusableComponents s) of
        None \<Rightarrow> (None, s)
      | Some component \<Rightarrow>
          (let s' = updateLayout (focusKey component) s
           in (map_option layout (getComponent k (focusableComponents s')), s')))"

definition isFocusableComponent :: "string \<Rightarrow> service \<Rightarrow> bool" where
  "isFocusableComponent k s = (getComponent k (focusableComponents s) \<noteq> None)"

definition isParticipatingFocusableComponent :: "string \<Rightarrow> service \<Rightarrow> bool" where
  "isParticipatingFocusableComponent k s =
     (case getComponent k (focusableComponents s) of None \<Rightarrow> False | Some c \<Rightarrow> focusable c)"

definition saveLastFocusedChildKey ::
  "FocusableComponent option \<Rightarrow> string option \<Rightarrow> service \<Rightarrow> service" where
  "saveLastFocusedChildKey component k s =
     (case component of
        None \<Rightarrow> s
      | Some c \<Rightarrow>
          s\<lparr>focusableComponents :=
              modifyComponent (focusKey c) (\<lambda>c. c\<lparr>lastFocusedChildKey := k\<rparr>)
                (focusableComponents s)\<rparr>)"

definition getChildClosestToOrigin :: "FocusableComponent list \<Rightarrow> FocusableComponent option" where
  "getChildClosestToOrigin children =
     first (sortBy children (\<lambda>c. fadd \<bar>left (layout c)\<bar> \<bar>top (layout c)\<bar>))"

text \<open>
  \<open>getNextFocusKey\<close> calls itself in tail position and nothing bounds the descent, so a
  call that does not return is the value \<open>None\<close>.  The children are objects of the
  store, so after \<open>updateLayout\<close> they are read again.  Destructuring the result of
  \<open>getChildClosestToOrigin\<close> would raise on an empty list; the list is not empty there
  (lemma \<open>children_after_updateLayout\<close> below).
\<close>

partial_function (option) getNextFocusKey :: "string \<Rightarrow> service \<Rightarrow> (string \<times> service) option" where
  "getNextFocusKey targetFocusKey s =
     (case getComponent targetFocusKey (focusableComponents s) of
        None \<Rightarrow> Some (targetFocusKey, s)
      | Some targetComponent \<Rightarrow>
          (let children = filter (\<lambda>c. parentFocusKey c = targetFocusKey \<and> focusable c)
                            (focusableComponents s)
           in if length children > 0 then
                (case (case lastFocusedChildKey targetComponent of
                         None \<Rightarrow> None
                       | Some l \<Rightarrow> if l \<noteq> [] \<and> saveLastFocusedChild targetComponent \<and>
                                      isParticipatingFocusableComponent l s
                                   then Some l else None) of
                   Some l \<Rightarrow> getNextFocusKey l s
                 | None \<Rightarrow>
                    (case (case preferredChildFocusKey targetComponent of
                             None \<Rightarrow> None
                           | Some p \<Rightarrow> if p \<noteq> [] \<and> isParticipatingFocusableComponent p s
                                       then Some p else None) of
                       Some p \<Rightarrow> getNextFocusKey p s
                     | None \<Rightarrow>
                        (let s' = fold (\<lambda>c. updateLayout (focusKey c)) children s;
                             children' =
                               filter (\<lambda>c. parentFocusKey c = targetFocusKey \<and> focusable c)
                                 (focusableComponents s')
                         in case getChildClosestToOrigin children' of
                              None \<Rightarrow> None
                            | Some child \<Rightarrow> getNextFocusKey (focusKey child) s')))
              else Some (targetFocusKey, s)))"

definition fire :: "callback \<Rightarrow> service \<Rightarrow> service" where
  "fire cb s = s\<lparr>callbacks := callbacks s @ [cb]\<rparr>"

definition setCurrentFocusedKey :: "string \<Rightarrow> service \<Rightarrow> service" where
  "setCurrentFocusedKey newFocusKey s =
     (let s1 =
            (case getComponent (propertyKey (currentFocusKey s)) (focusableComponents s) of
               Some oldComponent \<Rightarrow>
                 if Some newFocusKey \<noteq> currentFocusKey s then
                   (let parentComponent =
                          getComponent (parentFocusKey oldComponent) (focusableComponents s);
                        sa = saveLastFocusedChildKey parentComponent (currentFocusKey s) s;
                        sb = fire (OnUpdateFocus (focusKey oldComponent) False) sa;
                        (lay, sc) = getNodeLayoutByFocusKey (propertyKey (currentFocusKey s)) sb
                    in fire (OnBlur (focusKey oldComponent) lay) sc)
                 else s
             | None \<Rightarrow> s);
          s2 = s1\<lparr>currentFocusKey := Some newFocusKey\<rparr>
      in case getComponent newFocusKey (focusableComponents s2) of
           Some newComponent \<Rightarrow>
             (let sd = fire (OnUpdateFocus (focusKey newComponent) True) s2;
                  (lay, se) = getNodeLayoutByFocusKey newFocusKey sd
              in fire (OnFocus (focusKey newComponent) lay) se)
         | None \<Rightarrow> s2)"

definition onIntermediateNodeBecameFocused :: "string \<Rightarrow> service \<Rightarrow> service" where
  "onIntermediateNodeBecameFocused k s =
     (if isParticipatingFocusableComponent k s then
        (let (lay, s') = getNodeLayoutByFocusKey k s in fire (OnFocus k lay) s')
      else s)"

definition onIntermediateNodeBecameBlurred :: "string \<Rightarrow> service \<Rightarrow> service" where
  "onIntermediateNodeBecameBlurred k s =
     (if isParticipatingFocusableComponent k s then
        (let (lay, s') = getNodeLayoutByFocusKey k s in fire (OnBlur k lay) s')
      else s)"

text \<open>The \<open>while\<close> loop of \<open>updateParentsHasFocusedChild\<close>: it climbs the parent keys and
  runs forever on a cyclic chain.\<close>

partial_function (option) collectParents ::
  "FocusableComponent option \<Rightarrow> FocusableComponent list \<Rightarrow> string list \<Rightarrow> string list option" where
  "collectParents currentComponent cs parents =
     (case currentComponent of
        None \<Rightarrow> Some parents
      | Some c \<Rightarrow>
          (let parentComponent = getComponent (parentFocusKey c) cs
           in collectParents parentComponent cs
                (case parentComponent of
                   None \<Rightarrow> parents
                 | Some pc \<Rightarrow> parents @ [focusKey pc])))"

text \<open>The body of the two \<open>forEach\<close> loops of \<open>updateParentsHasFocusedChild\<close>, over the
  parents that lose the flag (\<open>False\<close>) and over those that gain it (\<open>True\<close>).\<close>

definition updateHasFocusedChild :: "bool \<Rightarrow> string \<Rightarrow> service \<Rightarrow> service" where
  "updateHasFocusedChild flag pk s =
     (let s1 = (case getComponent pk (focusableComponents s) of
                  Some parentComponent \<Rightarrow>
                    if trackChildren parentComponent
                    then fire (OnUpdateHasFocusedChild pk flag) s else s
                | None \<Rightarrow> s)
      in if flag then onIntermediateNodeBecameFocused pk s1
         else onIntermediateNodeBecameBlurred pk s1)"

definition updateParentsHasFocusedChild :: "string \<Rightarrow> service \<Rightarrow> service option" where
  "updateParentsHasFocusedChild k s =
     (case collectParents (getComponent k (focusableComponents s)) (focusableComponents s) [] of
        None \<Rightarrow> None
      | Some parents \<Rightarrow>
          (let parentsToRemoveFlag = difference (parentsHavingFocusedChild s) parents;
               parentsToAddFlag = difference parents (parentsHavingFocusedChild s);
               s1 = fold (updateHasFocusedChild False) parentsToRemoveFlag s;
               s2 = fold (updateHasFocusedChild True) parentsToAddFlag s1
           in Some (s2\<lparr>parentsHavingFocusedChild := parents\<rparr>)))"

text \<open>The \<open>while\<close> loop of \<open>updateParentsLastFocusedChild\<close>.\<close>

partial_function (option) climbLastFocusedChild ::
  "FocusableComponent option \<Rightarrow> service \<Rightarrow> service option" where
  "climbLastFocusedChild currentComponent s =
     (case currentComponent of
        None \<Rightarrow> Some s
      | Some c \<Rightarrow>
          (let parentComponent = getComponent (parentFocusKey c) (focusableComponents s)
           in climbLastFocusedChild parentComponent
                (case parentComponent of
                   None \<Rightarrow> s
                 | Some pc \<Rightarrow> saveLastFocusedChildKey parentComponent (Some (focusKey c)) s)))"

definition updateParentsLastFocusedChild :: "string option \<Rightarrow> service \<Rightarrow> service option" where
  "updateParentsLastFocusedChild k s =
     climbLastFocusedChild (getComponent (propertyKey k) (focusableComponents s)) s"

definition setFocus :: "string \<Rightarrow> service \<Rightarrow> service option" where
  "setFocus k s =
     (if \<not> enabled s then Some s
      else
        (let lastFocusedKey = currentFocusKey s
         in case getNextFocusKey k s of
              None \<Rightarrow> None
            | Some (newFocusKey, s1) \<Rightarrow>
                (case updateParentsHasFocusedChild newFocusKey
                        (setCurrentFocusedKey newFocusKey s1) of
                   None \<Rightarrow> None
                 | Some s2 \<Rightarrow> updateParentsLastFocusedChild lastFocusedKey s2)))"

section \<open>The service: the later revision of the focus operation\<close>

text \<open>
  \<open>src/src/SpatialNavigation.ts\<close> holds a later revision of the same service, the one
  \<open>useFocusable.ts\<close> calls: \<open>setFocus\<close>, \<open>setCurrentFocusedKey\<close> and \<open>getNextFocusKey\<close> are
  replaced by \<open>focus\<close> and \<open>getValidLeafFocusKey\<close>.  The leaf resolution answers the
  current focus key for an unregistered target, and tries the remembered and the preferred
  child before it looks for children.
\<close>

partial_function (option) getValidLeafFocusKey ::
  "string \<Rightarrow> service \<Rightarrow> (string option \<times> service) option" where
  "getValidLeafFocusKey targetFocusKey s =
     (case getComponent targetFocusKey (focusableComponents s) of
        None \<Rightarrow> Some (currentFocusKey s, s)
      | Some targetComponent \<Rightarrow>
          (case (case lastFocusedChildKey targetComponent of
                   None \<Rightarrow> None
                 | Some l \<Rightarrow> if l \<noteq> [] \<and> saveLastFocusedChild targetComponent \<and>
                                isParticipatingFocusableComponent l s
                             then Some l else None) of
             Some l \<Rightarrow> getValidLeafFocusKey l s
           | None \<Rightarrow>
              (case (case preferredChildFocusKey targetComponent of
                       None \<Rightarrow> None
                     | Some p \<Rightarrow> if p \<noteq> [] \<and> isParticipatingFocusableComponent p s
                                 then Some p else None) of
                 Some p \<Rightarrow> getValidLeafFocusKey p s
               | None \<Rightarrow>
                  (let participatingChildren =
                         filter (\<lambda>c. parentFocusKey c = targetFocusKey \<and> focusable c)
                           (focusableComponents s)
                   in if length participatingChildren > 0 then
                        (let s' = fold (\<lambda>c. updateLayout (focusKey c)) participatingChildren s;
                             children' =
                               filter (\<lambda>c. parentFocusKey c = targetFocusKey \<and> focusable c)
                                 (focusableComponents s')
                         in case getChildClosestToOrigin children' of
                              None \<Rightarrow> None
                            | Some child \<Rightarrow> getValidLeafFocusKey (focusKey child) s')
                      else Some (Some targetFocusKey, s)))))"

definition focus :: "string \<Rightarrow> service \<Rightarrow> service option" where
  "focus targetFocusKey s =
     (if \<not> enabled s then Some s
      else
        (let oldFocusKey = currentFocusKey s
         in case getValidLeafFocusKey targetFocusKey s of
              None \<Rightarrow> None
            | Some (newFocusKey, s1) \<Rightarrow>
                (let oldFocusableComponent =
                       getComponent (propertyKey oldFocusKey) (focusableComponents s1);
                     newFocusableComponent =
                       getComponent (propertyKey newFocusKey) (focusableComponents s1);
                     s2 = (case oldFocusableComponent of
                             Some oldComponent \<Rightarrow>
                               if oldFocusKey \<noteq> newFocusKey then
                                 (let sa = fire (OnUpdateFocus (focusKey oldComponent) False) s1;
                                      (lay, sb) =
                                        getNodeLayoutByFocusKey (propertyKey oldFocusKey) sa
                                  in fire (OnBlur (focusKey oldComponent) lay) sb)
                               else s1
                           | None \<Rightarrow> s1);
                     s3 = s2\<lparr>currentFocusKey := newFocusKey\<rparr>;
                     s4 = (case newFocusableComponent of
                             Some newComponent \<Rightarrow>
                               if oldFocusKey \<noteq> newFocusKey then
                                 (let sc = fire (OnUpdateFocus (focusKey newComponent) True) s3;
                                      (lay, sd) =
                                        getNodeLayoutByFocusKey (propertyKey newFocusKey) sc
                                  in fire (OnFocus (focusKey newComponent) lay) sd)
                               else s3
                           | None \<Rightarrow> s3)
                 in case updateParentsHasFocusedChild (propertyKey newFocusKey) s4 of
                      None \<Rightarrow> None
                    | Some s5 \<Rightarrow> updateParentsLastFocusedChild oldFocusKey s5)))"

section \<open>helpers.ts: smartNavigate\<close>

text \<open>The closure \<open>isNodeFocusable\<close> of \<open>smartNavigate\<close>.  \<open>isValidDirectionally\<close> stays
  \<open>undefined\<close> when the edge test of a known direction fails; \<open>filter\<close> reads that as
  false.\<close>

definition isNodeFocusable :: "string \<Rightarrow> FocusableComponent \<Rightarrow> FocusableComponent \<Rightarrow> bool" where
  "isNodeFocusable dir from to =
     (if \<not> focusable to then False
      else if focusKey from = focusKey to then False
      else if parentFocusKey from \<noteq> parentFocusKey to then False
      else if dir = DIRECTION_LEFT then
        (let rightEdgeNext = fadd (left (layout to)) (width (layout to));
             leftEdgeCurrent = left (layout from)
         in leftEdgeCurrent \<ge> rightEdgeNext)
      else if dir = DIRECTION_RIGHT then
        (let leftEdgeNext = left (layout to);
             rightEdgeCurrent = fadd (left (layout from)) (width (layout from))
         in rightEdgeCurrent \<le> leftEdgeNext)
      else if dir = DIRECTION_DOWN then
        (let topEdgeNext = top (layout to);
             bottomEdgeCurrent = fadd (top (layout from)) (height (layout from))
         in topEdgeNext \<ge> bottomEdgeCurrent)
      else if dir = DIRECTION_UP then
        (let bottomEdgeNext = fadd (top (layout to)) (height (layout to));
             topEdgeCurrent = top (layout from)
         in topEdgeCurrent \<ge> bottomEdgeNext)
      else False)"

text \<open>\<open>smartNavigate\<close> calls itself on the parent key; on a cyclic parent chain without an
  eligible sibling it does not return.\<close>

partial_function (option) smartNavigate :: "string \<Rightarrow> string \<Rightarrow> service \<Rightarrow> service option" where
  "smartNavigate k direction s =
     (case getComponent k (focusableComponents s) of
        None \<Rightarrow> Some s
      | Some fromComponent \<Rightarrow>
          if isFocusBoundary fromComponent then Some s
          else
            (let siblings = filter (isNodeFocusable direction fromComponent) (focusableComponents s);
                 sortedSiblingsInCurrentDirection =
                   sortSiblingsByPriority siblings (layout fromComponent) direction
             in case first sortedSiblingsInCurrentDirection of
                  Some nextComponent \<Rightarrow> setFocus (focusKey nextComponent) s
                | None \<Rightarrow>
                    (let parentComponent =
                           getComponent (parentFocusKey fromComponent) (focusableComponents s)
                     in smartNavigate (parentFocusKey fromComponent) direction
                          (saveLastFocusedChildKey parentComponent
                             (Some (focusKey fromComponent)) s))))"

text \<open>The chain of recursive calls of \<open>smartNavigate\<close>: from the call on \<open>k\<close> in \<open>s\<close> the
  recursion arrives at the call on \<open>k'\<close> in \<open>s'\<close>.\<close>

inductive climbsTo :: "string \<Rightarrow> string \<Rightarrow> service \<Rightarrow> string \<Rightarrow> service \<Rightarrow> bool" where
  climbsTo_here: "climbsTo direction k s k s"
| climbsTo_parent:
    "getComponent k (focusableComponents s) = Some fromComponent \<Longrightarrow>
     \<not> isFocusBoundary fromComponent \<Longrightarrow>
     first (sortSiblingsByPriority
              (filter (isNodeFocusable direction fromComponent) (focusableComponents s))
              (layout fromComponent) direction) = None \<Longrightarrow>
     climbsTo direction (parentFocusKey fromComponent)
       (saveLastFocusedChildKey
          (getComponent (parentFocusKey fromComponent) (focusableComponents s))
          (Some (focusKey fromComponent)) s) k' s' \<Longrightarrow>
     climbsTo direction k s k' s'"

section \<open>The service: update and removal of components\<close>

text \<open>\<open>updatePointerSupport\<close> reads \<open>this.focusableComponents[focusKey].node\<close> without a
  check: on an unknown key that is a TypeError.\<close>

definition updatePointerSupport :: "string \<Rightarrow> bool \<Rightarrow> service \<Rightarrow> error + service" where
  "updatePointerSupport k support s =
     (case getComponent k (focusableComponents s) of
        None \<Rightarrow> Inl TypeError
      | Some c \<Rightarrow>
          if support then Inr (s\<lparr>onmouseenter := insert (node c) (onmouseenter s)\<rparr>)
          else Inr (s\<lparr>onmouseenter := onmouseenter s - {node c}\<rparr>))"

text \<open>The payload of \<open>updateFocusable\<close>.  Its type makes \<open>preferredChildFocusKey\<close>
  optional; \<open>node\<close> is tested before it is used, the other fields are required.\<close>

record FocusableComponentUpdatePayload =
  upd_node :: "node option"
  upd_preferredChildFocusKey :: "string option"
  upd_focusable :: bool
  upd_pointerSupport :: bool
  upd_isFocusBoundary :: bool
  upd_onEnterPress :: handler
  upd_onEnterRelease :: handler
  upd_onArrowPress :: handler
  upd_onFocus :: handler
  upd_onBlur :: handler
  upd_onNavigate :: handler

definition updateFocusable ::
  "string \<Rightarrow> FocusableComponentUpdatePayload \<Rightarrow> service \<Rightarrow> error + service" where
  "updateFocusable k payload s =
     (case getComponent k (focusableComponents s) of
        None \<Rightarrow> Inr s
      | Some component \<Rightarrow>
          (let s1 = s\<lparr>focusableComponents :=
                       modifyComponent k
                         (\<lambda>c. c\<lparr>preferredChildFocusKey := upd_preferredChildFocusKey payload,
                                focusable := upd_focusable payload,
                                isFocusBoundary := upd_isFocusBoundary payload,
                                onEnterPress := upd_onEnterPress payload,
                                onEnterRelease := upd_onEnterRelease payload,
                                onArrowPress := upd_onArrowPress payload,
                                onFocus := upd_onFocus payload,
                                onBlur := upd_onBlur payload,
                                onNavigate := upd_onNavigate payload\<rparr>)
                         (focusableComponents s)\<rparr>
           in case updatePointerSupport k False s1 of
                Inl e \<Rightarrow> Inl e
              | Inr s2 \<Rightarrow>
                  (let s3 = (case upd_node payload of
                               None \<Rightarrow> s2
                             | Some n \<Rightarrow>
                                 s2\<lparr>focusableComponents :=
                                      modifyComponent k (\<lambda>c. c\<lparr>node := n\<rparr>)
                                        (focusableComponents s2)\<rparr>)
                   in updatePointerSupport k (upd_pointerSupport payload) s3)))"

text \<open>\<open>removeFocusable\<close> may call \<open>setFocus\<close>, so it may not return (\<open>None\<close>); when it
  returns, it has raised (\<open>Inl\<close>) or finished with a state (\<open>Inr\<close>).\<close>

definition removeFocusable :: "string \<Rightarrow> service \<Rightarrow> (error + service) option" where
  "removeFocusable k s =
     (case getComponent k (focusableComponents s) of
        None \<Rightarrow> Some (Inr s)
      | Some componentToRemove \<Rightarrow>
          (let parentKey = parentFocusKey componentToRemove
           in case updatePointerSupport k False s of
                Inl e \<Rightarrow> Some (Inl e)
              | Inr s1 \<Rightarrow>
                  (let s2 = s1\<lparr>focusableComponents := deleteComponent k (focusableComponents s1)\<rparr>;
                       parentComponent = getComponent parentKey (focusableComponents s2);
                       isFocused = (Some k = currentFocusKey s2);
                       s3 = (case parentComponent of
                               None \<Rightarrow> s2
                             | Some pc \<Rightarrow>
                                 if lastFocusedChildKey pc = Some k
                                 then s2\<lparr>focusableComponents :=
                                           modifyComponent parentKey
                                             (\<lambda>c. c\<lparr>lastFocusedChildKey := None\<rparr>)
                                             (focusableComponents s2)\<rparr>
                                 else s2);
                       s4 = s3\<lparr>focusableComponents :=
                                 map (\<lambda>c. if parentFocusKey c = k \<and> focusable c
                                          then c\<lparr>parentFocusKey := parentKey\<rparr> else c)
                                   (focusableComponents s3)\<rparr>
                   in if isFocused \<and>
                         (case parentComponent of None \<Rightarrow> False | Some pc \<Rightarrow> autoRestoreFocus pc)
                      then map_option Inr (setFocus parentKey s4)
                      else Some (Inr s4))))"

section \<open>The directional ranking as the specification words it\<close>

text \<open>
  The second reading of the ranking, written from the specification and not from the
  code: for a direction, the coordinate of the origin's facing edge and of the candidate's
  edge that faces back, the two boxes' segments on the cross axis, their overlap, the
  20 percent rule, the two distances and the score.  It is written twice: \<open>spec_\<dots>\<close> in
  exact arithmetic, as the specification states the formulas, and \<open>rounded_\<dots>\<close> with
  every sum, difference, product and quotient rounded to a double.
\<close>

definition spec_vertical :: "string \<Rightarrow> bool" where
  "spec_vertical d = (d = ''up'' \<or> d = ''down'')"

definition spec_originEdge :: "string \<Rightarrow> FocusableComponentLayout \<Rightarrow> rat" where
  "spec_originEdge d box =
     (if d = ''up'' then top box
      else if d = ''down'' then top box + height box
      else if d = ''left'' then left box
      else left box + width box)"

definition spec_candidateEdge :: "string \<Rightarrow> FocusableComponentLayout \<Rightarrow> rat" where
  "spec_candidateEdge d box =
     (if d = ''up'' then top box + height box
      else if d = ''down'' then top box
      else if d = ''left'' then left box + width box
      else left box)"

definition spec_crossStart :: "string \<Rightarrow> FocusableComponentLayout \<Rightarrow> rat" where
  "spec_crossStart d box = (if spec_vertical d then left box else top box)"

definition spec_crossEnd :: "string \<Rightarrow> FocusableComponentLayout \<Rightarrow> rat" where
  "spec_crossEnd d box =
     (if spec_vertical d then left box + width box else top box + height box)"

definition spec_overlap :: "string \<Rightarrow> FocusableComponentLayout \<Rightarrow> FocusableComponentLayout \<Rightarrow> rat" where
  "spec_overlap d origin cand =
     max 0 (min (spec_crossEnd d origin) (spec_crossEnd d cand)
            - max (spec_crossStart d origin) (spec_crossStart d cand))"

definition spec_adjacent :: "string \<Rightarrow> FocusableComponentLayout \<Rightarrow> FocusableComponentLayout \<Rightarrow> bool" where
  "spec_adjacent d origin cand =
     (spec_overlap d origin cand
        \<ge> (20 / 100) * (spec_crossEnd d origin - spec_crossStart d origin))"

definition spec_axisDistance ::
  "string \<Rightarrow> FocusableComponentLayout \<Rightarrow> FocusableComponentLayout \<Rightarrow> rat" where
  "spec_axisDistance d origin cand = \<bar>spec_candidateEdge d cand - spec_originEdge d origin\<bar>"

definition spec_crossDistance ::
  "string \<Rightarrow> FocusableComponentLayout \<Rightarrow> FocusableComponentLayout \<Rightarrow> rat" where
  "spec_crossDistance d origin cand =
     min (min \<bar>spec_crossStart d cand - spec_crossStart d origin\<bar>
              \<bar>spec_crossStart d cand - spec_crossEnd d origin\<bar>)
         (min \<bar>spec_crossEnd d cand - spec_crossStart d origin\<bar>
              \<bar>spec_crossEnd d cand - spec_crossEnd d origin\<bar>)"

definition spec_score :: "string \<Rightarrow> FocusableComponentLayout \<Rightarrow> FocusableComponentLayout \<Rightarrow> rat" where
  "spec_score d origin cand =
     (if spec_adjacent d origin cand
      then (spec_axisDistance d origin cand * 5 + spec_crossDistance d origin cand + 1) / 5
      else (spec_crossDistance d origin cand * 5 + spec_axisDistance d origin cand + 1) / 1)"

definition rounded_originEdge :: "string \<Rightarrow> FocusableComponentLayout \<Rightarrow> rat" where
  "rounded_originEdge d box =
     (if d = ''up'' then top box
      else if d = ''down'' then fadd (top box) (height box)
      else if d = ''left'' then left box
      else fadd (left box) (width box))"

definition rounded_candidateEdge :: "string \<Rightarrow> FocusableComponentLayout \<Rightarrow> rat" where
  "rounded_candidateEdge d box =
     (if d = ''up'' then fadd (top box) (height box)
      else if d = ''down'' then top box
      else if d = ''left'' then fadd (left box) (width box)
      else left box)"

definition rounded_crossEnd :: "string \<Rightarrow> FocusableComponentLayout \<Rightarrow> rat" where
  "rounded_crossEnd d box =
     (if spec_vertical d then fadd (left box) (width box) else fadd (top box) (height box))"

definition rounded_overlap ::
  "string \<Rightarrow> FocusableComponentLayout \<Rightarrow> FocusableComponentLayout \<Rightarrow> rat" where
  "rounded_overlap d origin cand =
     max 0 (fsub (min (rounded_crossEnd d origin) (rounded_crossEnd d cand))
                 (max (spec_crossStart d origin) (spec_crossStart d cand)))"

definition rounded_adjacent ::
  "string \<Rightarrow> FocusableComponentLayout \<Rightarrow> FocusableComponentLayout \<Rightarrow> bool" where
  "rounded_adjacent d origin cand =
     (rounded_overlap d origin cand
        \<ge> fmul (fsub (rounded_crossEnd d origin) (spec_crossStart d origin)) (fl (20 / 100)))"

definition rounded_axisDistance ::
  "string \<Rightarrow> FocusableComponentLayout \<Rightarrow> FocusableComponentLayout \<Rightarrow> rat" where
  "rounded_axisDistance d origin cand =
     \<bar>fsub (rounded_candidateEdge d cand) (rounded_originEdge d origin)\<bar>"

definition rounded_crossDistance ::
  "string \<Rightarrow> FocusableComponentLayout \<Rightarrow> FocusableComponentLayout \<Rightarrow> rat" where
  "rounded_crossDistance d origin cand =
     min (min \<bar>fsub (spec_crossStart d cand) (spec_crossStart d origin)\<bar>
              \<bar>fsub (spec_crossStart d cand) (rounded_crossEnd d origin)\<bar>)
         (min \<bar>fsub (rounded_crossEnd d cand) (spec_crossStart d origin)\<bar>
              \<bar>fsub (rounded_crossEnd d cand) (rounded_crossEnd d origin)\<bar>)"

definition rounded_score ::
  "string \<Rightarrow> FocusableComponentLayout \<Rightarrow> FocusableComponentLayout \<Rightarrow> rat" where
  "rounded_score d origin cand =
     (if rounded_adjacent d origin cand
      then fdiv (fadd (fadd (fmul (rounded_axisDistance d origin cand) 5)
                            (rounded_crossDistance d origin cand)) 1) 5
      else fdiv (fadd (fadd (fmul (rounded_crossDistance d origin cand) 5)
                            (rounded_axisDistance d origin cand)) 1) 1)"

text \<open>Layouts whose coordinates are small enough for no result of the ranking to be
  infinite, and layouts whose coordinates are integers of at most 40 bits, as sums of pixel
  offsets are.\<close>

definition inRange :: "FocusableComponentLayout \<Rightarrow> bool" where
  "inRange box \<longleftrightarrow>
     \<bar>left box\<bar> \<le> 2 ^ 1000 \<and> \<bar>top box\<bar> \<le> 2 ^ 1000 \<and>
     \<bar>width box\<bar> \<le> 2 ^ 1000 \<and> \<bar>height box\<bar> \<le> 2 ^ 1000"

definition whole :: "nat \<Rightarrow> rat \<Rightarrow> bool" where
  "whole n v \<longleftrightarrow> v \<in> \<int> \<and> \<bar>v\<bar> \<le> 2 ^ n"

definition integral :: "FocusableComponentLayout \<Rightarrow> bool" where
  "integral box \<longleftrightarrow>
     whole 40 (left box) \<and> whole 40 (top box) \<and> whole 40 (width box) \<and> whole 40 (height box)"

section \<open>Devices of the proofs and example states\<close>

text \<open>Two stores agree up to layouts when they are equal once every layout is blanked;
  \<open>layoutsOnly s s'\<close> says that \<open>s'\<close> differs from \<open>s\<close> in layouts and in the trace of
  measurements at most.\<close>

definition blankLayout :: FocusableComponentLayout where
  "blankLayout = \<lparr>left = 0, top = 0, width = 0, height = 0, layout_x = 0, layout_y = 0,
                  layout_node = 0\<rparr>"

definition forgetLayout :: "FocusableComponent \<Rightarrow> FocusableComponent" where
  "forgetLayout c = c\<lparr>layout := blankLayout\<rparr>"

definition layoutsOnly :: "service \<Rightarrow> service \<Rightarrow> bool" where
  "layoutsOnly s s' \<longleftrightarrow>
     map forgetLayout (focusableComponents s') = map forgetLayout (focusableComponents s) \<and>
     currentFocusKey s' = currentFocusKey s \<and>
     parentsHavingFocusedChild s' = parentsHavingFocusedChild s \<and>
     enabled s' = enabled s \<and>
     onmouseenter s' = onmouseenter s \<and>
     measureLayout s' = measureLayout s \<and>
     callbacks s' = callbacks s"



text \<open>The focusable children of a key, as \<open>getNextFocusKey\<close> filters them.\<close>

definition childrenOf :: "string \<Rightarrow> FocusableComponent list \<Rightarrow> FocusableComponent list" where
  "childrenOf k cs = filter (\<lambda>c. parentFocusKey c = k \<and> focusable c) cs"

text \<open>Example components: a box at \<open>(l, t)\<close> of size \<open>w\<close> by \<open>h\<close>, a focusable component with
  default flags, and an enabled service whose layout provider measures every node as the
  box \<open>(0, 0, 10, 10)\<close>.\<close>

definition exampleLayout :: "rat \<Rightarrow> rat \<Rightarrow> rat \<Rightarrow> rat \<Rightarrow> FocusableComponentLayout" where
  "exampleLayout l t w h =
     \<lparr>left = l, top = t, width = w, height = h, layout_x = l, layout_y = t, layout_node = 0\<rparr>"

definition exampleComponent ::
  "string \<Rightarrow> string \<Rightarrow> FocusableComponentLayout \<Rightarrow> FocusableComponent" where
  "exampleComponent k p l =
     \<lparr>focusKey = k, node = 0, parentFocusKey = p, onEnterPress = 0, onEnterRelease = 0,
      onArrowPress = 0, onFocus = 0, onBlur = 0, onNavigate = 0, onUpdateFocus = 0,
      onUpdateHasFocusedChild = 0, saveLastFocusedChild = True, trackChildren = False,
      preferredChildFocusKey = None, focusable = True, isFocusBoundary = False,
      pointerSupport = False, autoRestoreFocus = True, lastFocusedChildKey = None,
      layout = l, layoutUpdated = False\<rparr>"

definition exampleService :: "FocusableComponent list \<Rightarrow> string option \<Rightarrow> service" where
  "exampleService cs k =
     \<lparr>focusableComponents = cs, currentFocusKey = k, parentsHavingFocusedChild = [],
      enabled = True, onmouseenter = {}, measureLayout = (\<lambda>n. exampleLayout 0 0 10 10),
      measured = [], callbacks = []\<rparr>"

text \<open>
  Where \<open>getNextFocusKey\<close> goes from a registered target with focusable children: the
  remembered child when it may be used, else the preferred child when it may be used, else
  the child closest to the origin after the children's layouts were refreshed.  Lemma
  \<open>getNextFocusKey_descend\<close> shows that this is the recursive call of the function.
\<close>

definition lastFocusedChoice :: "FocusableComponent \<Rightarrow> service \<Rightarrow> string option" where
  "lastFocusedChoice tc s =
     (case lastFocusedChildKey tc of
        None \<Rightarrow> None
      | Some l \<Rightarrow> if l \<noteq> [] \<and> saveLastFocusedChild tc \<and> isParticipatingFocusableComponent l s
                  then Some l else None)"

definition preferredChoice :: "FocusableComponent \<Rightarrow> service \<Rightarrow> string option" where
  "preferredChoice tc s =
     (case preferredChildFocusKey tc of
        None \<Rightarrow> None
      | Some p \<Rightarrow> if p \<noteq> [] \<and> isParticipatingFocusableComponent p s then Some p else None)"

definition descendTarget ::
  "string \<Rightarrow> FocusableComponent \<Rightarrow> service \<Rightarrow> (string \<times> service) option" where
  "descendTarget t tc s =
     (case lastFocusedChoice tc s of
        Some l \<Rightarrow> Some (l, s)
      | None \<Rightarrow>
          (case preferredChoice tc s of
             Some p \<Rightarrow> Some (p, s)
           | None \<Rightarrow>
               (let s' = fold (\<lambda>c. updateLayout (focusKey c))
                           (childrenOf t (focusableComponents s)) s
                in case getChildClosestToOrigin (childrenOf t (focusableComponents s')) of
                     None \<Rightarrow> None
                   | Some child \<Rightarrow> Some (focusKey child, s'))))"

text \<open>
  A rank for the descent: every focusable component lies strictly below its parent key,
  and a remembered or preferred key that names a focusable registered component lies
  strictly below the component that holds it.  Where the remembered and the preferred
  keys that name registered components name children of their holder, a rank that
  decreases along the parent links is one (lemma \<open>ranked_of_child_keys\<close>).
\<close>

definition ranked :: "(string \<Rightarrow> nat) \<Rightarrow> FocusableComponent list \<Rightarrow> bool" where
  "ranked r cs \<longleftrightarrow>
     (\<forall>c \<in> set cs.
        (focusable c \<longrightarrow> r (focusKey c) < r (parentFocusKey c)) \<and>
        (\<forall>l lc. lastFocusedChildKey c = Some l \<and> getComponent l cs = Some lc \<and> focusable lc
                 \<longrightarrow> r l < r (focusKey c)) \<and>
        (\<forall>p pc. preferredChildFocusKey c = Some p \<and> getComponent p cs = Some pc \<and> focusable pc
                 \<longrightarrow> r p < r (focusKey c)))"


definition nestedService :: service where
  "nestedService =
     exampleService
       [exampleComponent ''R'' ''SN:ROOT'' (exampleLayout 0 0 30 10),
        exampleComponent ''P'' ''R'' (exampleLayout 0 0 10 10),
        exampleComponent ''Q'' ''R'' (exampleLayout 20 0 10 10),
        exampleComponent ''A'' ''P'' (exampleLayout 0 0 10 10)]
       (Some ''A'')"

definition boundaryService :: service where
  "boundaryService =
     exampleService
       [(exampleComponent ''P'' ''SN:ROOT'' (exampleLayout 0 0 10 10))
           \<lparr>isFocusBoundary := True\<rparr>,
        exampleComponent ''A'' ''P'' (exampleLayout 0 0 10 10)]
       (Some ''A'')"

text \<open>\<open>nestedClimbed\<close> and \<open>boundaryClimbed\<close> are \<open>nestedService\<close> and \<open>boundaryService\<close>
  after \<open>A\<close> was recorded as the last focused child of \<open>P\<close>.\<close>

definition nestedClimbed :: service where
  "nestedClimbed =
     exampleService
       [exampleComponent ''R'' ''SN:ROOT'' (exampleLayout 0 0 30 10),
        (exampleComponent ''P'' ''R'' (exampleLayout 0 0 10 10))
           \<lparr>lastFocusedChildKey := Some ''A''\<rparr>,
        exampleComponent ''Q'' ''R'' (exampleLayout 20 0 10 10),
        exampleComponent ''A'' ''P'' (exampleLayout 0 0 10 10)]
       (Some ''A'')"





text \<open>\<open>carouselService\<close>: a scrolling row \<open>P\<close> with the box \<open>(0, 0, 100, 10)\<close> beside a
  row \<open>Q\<close> under \<open>R\<close>; the focused item \<open>A\<close> of \<open>P\<close> is laid out at 500, beyond the box of
  its row.\<close>

definition carouselService :: service where
  "carouselService =
     exampleService
       [exampleComponent ''R'' ''SN:ROOT'' (exampleLayout 0 0 200 10),
        exampleComponent ''P'' ''R'' (exampleLayout 0 0 100 10),
        exampleComponent ''Q'' ''R'' (exampleLayout 100 0 100 10),
        exampleComponent ''A'' ''P'' (exampleLayout 500 0 10 10)]
       (Some ''A'')"

text \<open>An origin box 25 high and two candidates to its right: \<open>S1\<close>, 5 high with its top
  at the double \<open>3.2\<close>, and \<open>S2\<close>, level with the origin and farther away.\<close>

definition sliceOrigin :: FocusableComponentLayout where
  "sliceOrigin = exampleLayout 0 0 10 25"

definition sliceS1 :: FocusableComponent where
  "sliceS1 = exampleComponent ''S1'' ''P'' (exampleLayout 20 (fl (16 / 5)) 10 5)"

definition sliceS2 :: FocusableComponent where
  "sliceS2 = exampleComponent ''S2'' ''P'' (exampleLayout 30 0 10 25)"

text \<open>\<open>singleService\<close>: the focused leaf \<open>A\<close> alone; \<open>unfocusedService\<close>: the same with no
  focus yet.  \<open>preferringService\<close>: a container \<open>P\<close> that prefers its child \<open>C\<close>, and
  \<open>omittingPayload\<close>, an update of \<open>P\<close> that repeats \<open>P\<close>'s values and leaves
  \<open>preferredChildFocusKey\<close> and \<open>node\<close> out.  \<open>staleService\<close>: \<open>N\<close> inside \<open>P\<close> with a child
  \<open>C\<close>, where both \<open>P\<close> and another container \<open>M\<close> remember \<open>N\<close> as last focused child (as
  after \<open>N\<close> was focused inside \<open>M\<close> and then registered again inside \<open>P\<close>).\<close>

definition singleService :: service where
  "singleService =
     exampleService [exampleComponent ''A'' ''SN:ROOT'' (exampleLayout 5 5 10 10)] (Some ''A'')"


definition preferringService :: service where
  "preferringService =
     exampleService
       [(exampleComponent ''P'' ''SN:ROOT'' (exampleLayout 0 0 10 10))
           \<lparr>preferredChildFocusKey := Some ''C''\<rparr>,
        exampleComponent ''C'' ''P'' (exampleLayout 0 0 10 10)]
       None"

definition omittingPayload :: FocusableComponentUpdatePayload where
  "omittingPayload =
     \<lparr>upd_node = None, upd_preferredChildFocusKey = None, upd_focusable = True,
      upd_pointerSupport = False, upd_isFocusBoundary = False, upd_onEnterPress = 0,
      upd_onEnterRelease = 0, upd_onArrowPress = 0, upd_onFocus = 0, upd_onBlur = 0,
      upd_onNavigate = 0\<rparr>"


section \<open>Double arithmetic\<close>

lemma powi_less_cancel: "(2::rat) powi a < 2 powi b \<Longrightarrow> a < b"
  using power_int_increasing[of b a "2::rat"] by (cases "a < b") auto

lemma expo_bounds:
  assumes "0 < x"
  shows "2 powi expo x \<le> x" and "x < 2 powi (expo x + 1)"
proof -
  obtain p q where pq: "quotient_of x = (p, q)" by (cases "quotient_of x")
  then have q: "0 < q" and x: "x = of_int p / of_int q"
    using quotient_of_denom_pos quotient_of_div by auto
  with assms have p: "0 < p" by (simp add: zero_less_divide_iff)
  define d where "d = bitlen p - bitlen q"
  have ex: "expo x = (if 2 powi d \<le> x then d else d - 1)"
    by (simp add: expo_def pq d_def Let_def)
  have bnd: "(2::rat) powi (bitlen n - 1) \<le> of_int n \<and> of_int n < (2::rat) powi bitlen n"
    if "0 < n" for n
  proof -
    from that have b1: "1 \<le> bitlen n" by (auto simp: bitlen_alt_def)
    from bitlen_bounds[OF that]
    have "rat_of_int (2 ^ nat (bitlen n - 1)) \<le> of_int n" "rat_of_int n < of_int (2 ^ nat (bitlen n))"
      by (simp_all only: of_int_le_iff of_int_less_iff)
    with b1 show ?thesis by (simp add: power_int_nonneg_exp)
  qed
  note pb = bnd[OF p] and qb = bnd[OF q]
  have "2 powi (d - 1) = (2::rat) powi (bitlen p - 1) / 2 powi bitlen q"
    by (simp add: d_def flip: power_int_diff) (simp add: algebra_simps)
  also have "\<dots> < of_int p / of_int q"
    using pb qb q by (intro frac_less2) simp_all
  finally have lo: "2 powi (d - 1) < x" by (simp add: x)
  have "x = of_int p / of_int q" by (rule x)
  also have "\<dots> < 2 powi bitlen p / 2 powi (bitlen q - 1)"
    using pb qb p by (intro frac_less) simp_all
  also have "\<dots> = 2 powi (d + 1)"
    by (simp add: d_def flip: power_int_diff) (simp add: algebra_simps)
  finally have hi: "x < 2 powi (d + 1)" .
  show "2 powi expo x \<le> x" using ex lo by (auto simp: not_le)
  show "x < 2 powi (expo x + 1)" using ex hi by (auto simp: not_le)
qed

lemma expo_eqI:
  assumes "2 powi k \<le> x" and "x < 2 powi (k + 1)"
  shows "expo x = k"
proof -
  have pos: "0 < x" using assms(1) by (rule less_le_trans[rotated]) simp
  from expo_bounds[OF pos] assms
  have "(2::rat) powi k < 2 powi (expo x + 1)" "(2::rat) powi expo x < 2 powi (k + 1)"
    by linarith+
  then have "k < expo x + 1" "expo x < k + 1" by (auto dest: powi_less_cancel)
  then show ?thesis by simp
qed

lemma roundEven_of_int [simp]: "roundEven (of_int n) = n"
  by (simp add: roundEven_def)

lemma roundEven_near:
  assumes "\<bar>z - of_int n\<bar> < 1 / 2"
  shows "roundEven z = n"
proof -
  from assms have a: "of_int n - 1 / 2 < z" "z < of_int n + 1 / 2"
    by linarith+
  have "n - 1 \<le> \<lfloor>z\<rfloor>" using a(1) by (simp add: le_floor_iff)
  moreover have "\<lfloor>z\<rfloor> \<le> n" using a(2) by (simp add: floor_le_iff)
  ultimately consider "\<lfloor>z\<rfloor> = n" | "\<lfloor>z\<rfloor> = n - 1" by linarith
  then show ?thesis
  proof cases
    case 1
    with a(2) have "z - of_int \<lfloor>z\<rfloor> < 1 / 2" by simp
    with 1 show ?thesis by (simp add: roundEven_def Let_def)
  next
    case 2
    with a(1) have "1 / 2 < z - of_int \<lfloor>z\<rfloor>" by simp
    then have "\<not> z - of_int \<lfloor>z\<rfloor> < 1 / 2" by simp
    with \<open>1 / 2 < z - of_int \<lfloor>z\<rfloor>\<close> 2 show ?thesis by (simp add: roundEven_def Let_def)
  qed
qed

lemma roundEven_tie:
  assumes "z = of_int m + 1 / 2 \<or> z = of_int m - 1 / 2" and "even m"
  shows "roundEven z = m"
proof -
  from assms(1) show ?thesis
  proof
    assume z: "z = of_int m + 1 / 2"
    have "\<lfloor>z\<rfloor> = m" unfolding z by (rule floor_unique) simp_all
    with z assms(2) show ?thesis by (simp add: roundEven_def Let_def)
  next
    assume z: "z = of_int m - 1 / 2"
    have f: "\<lfloor>z\<rfloor> = m - 1" unfolding z by (rule floor_unique) simp_all
    with z assms(2) show ?thesis by (simp add: roundEven_def Let_def)
  qed
qed

lemma roundEven_error: "\<bar>of_int (roundEven z) - z\<bar> \<le> 1 / 2"
proof -
  have "of_int \<lfloor>z\<rfloor> \<le> z" "z < of_int \<lfloor>z\<rfloor> + 1" by linarith+
  then show ?thesis by (auto simp: roundEven_def Let_def abs_le_iff)
qed

lemma quantum_pos [simp]: "0 < quantum x"
  by (simp add: quantum_def)

lemma fl_zero [simp]: "fl 0 = 0"
  by (simp add: fl_def)

text \<open>A value with a significand of at most 53 bits and an exponent in range is a double.\<close>

lemma fl_exact:
  assumes x: "x = of_int m * 2 powi e" and m: "\<bar>m\<bar> < 2 ^ 53" and e: "- 1074 \<le> e"
    and r: "\<bar>x\<bar> < 2 ^ 1024"
  shows "fl x = x"
proof (cases "x = 0")
  case True
  then show ?thesis by simp
next
  case False
  then have pos: "0 < \<bar>x\<bar>" by simp
  define E where "E = expo \<bar>x\<bar>"
  define g where "g = max E (- 1022) - 52"
  have q: "quantum x = 2 powi g" by (simp add: quantum_def g_def E_def)
  from expo_bounds(1)[OF pos] have "2 powi E \<le> \<bar>x\<bar>" by (simp add: E_def)
  also have "\<bar>x\<bar> = of_int \<bar>m\<bar> * 2 powi e" by (simp add: x abs_mult)
  also have "\<dots> < 2 ^ 53 * 2 powi e"
    using m by (intro mult_strict_right_mono) (simp_all flip: of_int_less_iff)
  also have "\<dots> = 2 powi (53 + e)" by (simp add: power_int_add)
  finally have "E < 53 + e" by (rule powi_less_cancel)
  with e have ge: "g \<le> e" by (simp add: g_def)
  have split: "(2::rat) powi e = 2 powi (e - g) * 2 powi g"
    by (simp flip: power_int_add)
  have "x / 2 powi g = of_int m * 2 powi (e - g)"
    unfolding x by (subst split) simp
  also have "\<dots> = of_int (m * 2 ^ nat (e - g))"
    using ge by (simp add: power_int_nonneg_exp)
  finally have "roundEven (x / 2 powi g) = m * 2 ^ nat (e - g)"
    by (simp only: roundEven_of_int)
  then have "rat_of_int (roundEven (x / 2 powi g)) * 2 powi g
               = of_int m * (2 powi (e - g) * 2 powi g)"
    using ge by (simp add: power_int_nonneg_exp)
  also have "\<dots> = x" unfolding x by (simp flip: split)
  finally have "of_int (roundEven (x / quantum x)) * quantum x = x" unfolding q .
  with False r show ?thesis by (simp add: fl_def Let_def)
qed

lemma fl_of_int: "\<bar>i\<bar> < 2 ^ 53 \<Longrightarrow> fl (of_int i) = of_int i"
proof -
  assume a: "\<bar>i\<bar> < 2 ^ 53"
  then have "\<bar>rat_of_int i\<bar> < 2 ^ 53"
    by (simp flip: of_int_abs add: of_int_less_iff[symmetric] del: of_int_less_iff)
  also have "(2::rat) ^ 53 < 2 ^ 1024" by simp
  finally show ?thesis using a by (intro fl_exact[where m = i and e = 0]) simp_all
qed

lemma fl_numeral [simp]: "numeral n < (2::int) ^ 53 \<Longrightarrow> fl (numeral n) = numeral n"
  using fl_of_int[of "numeral n"] by simp

lemma fl_neg_numeral [simp]:
  "numeral n < (2::int) ^ 53 \<Longrightarrow> fl (- numeral n) = - numeral n"
  using fl_of_int[of "- numeral n"] by simp

lemma fl_one [simp]: "fl 1 = 1"
  using fl_of_int[of 1] by simp

text \<open>The value of \<open>fl\<close> at a given rational: the nearest multiple of the spacing, and the
  even one of the two at a tie.\<close>

lemma fl_eqI:
  assumes lo: "2 powi k \<le> \<bar>x\<bar>" and hi: "\<bar>x\<bar> < 2 powi (k + 1)"
    and k: "- 1022 \<le> k"
    and m: "roundEven (x / 2 powi (k - 52)) = m"
    and r: "\<bar>rat_of_int m * 2 powi (k - 52)\<bar> < 2 ^ 1024"
  shows "fl x = of_int m * 2 powi (k - 52)"
proof -
  have "expo \<bar>x\<bar> = k" using lo hi by (rule expo_eqI)
  with k have q: "quantum x = 2 powi (k - 52)" by (simp add: quantum_def)
  have "0 < \<bar>x\<bar>" using lo by (rule less_le_trans[rotated]) simp
  then have "x \<noteq> 0" by simp
  with r show ?thesis by (simp add: fl_def q m Let_def)
qed

lemma fl_near:
  assumes "2 powi k \<le> \<bar>x\<bar>" and "\<bar>x\<bar> < 2 powi (k + 1)" and "- 1022 \<le> k"
    and "\<bar>x / 2 powi (k - 52) - of_int m\<bar> < 1 / 2"
    and "\<bar>rat_of_int m * 2 powi (k - 52)\<bar> < 2 ^ 1024"
  shows "fl x = of_int m * 2 powi (k - 52)"
  using assms(1,2,3) roundEven_near[OF assms(4)] assms(5) by (rule fl_eqI)

lemma fl_tie:
  assumes "2 powi k \<le> \<bar>x\<bar>" and "\<bar>x\<bar> < 2 powi (k + 1)" and "- 1022 \<le> k"
    and "x / 2 powi (k - 52) = of_int m + 1 / 2 \<or> x / 2 powi (k - 52) = of_int m - 1 / 2"
    and "even m"
    and "\<bar>rat_of_int m * 2 powi (k - 52)\<bar> < 2 ^ 1024"
  shows "fl x = of_int m * 2 powi (k - 52)"
  using assms(1,2,3) roundEven_tie[OF assms(4,5)] assms(6) by (rule fl_eqI)

lemmas arith_defs = fadd_def fsub_def fmul_def fdiv_def

text \<open>The error of \<open>fl\<close> below \<open>2 ^ 48\<close>, and integers of few bits, on which the
  operations are exact.\<close>

lemma fl_error_small:
  assumes "\<bar>x\<bar> < 2 ^ 48"
  shows "\<bar>fl x - x\<bar> \<le> 1 / 2 ^ 6"
proof (cases "x = 0")
  case True
  then show ?thesis by simp
next
  case False
  then have pos: "0 < \<bar>x\<bar>" by simp
  define E where "E = expo \<bar>x\<bar>"
  have "2 powi E \<le> \<bar>x\<bar>" unfolding E_def by (rule expo_bounds(1)[OF pos])
  also note assms
  also have "(2::rat) ^ 48 = 2 powi 48" by (simp only: power_int_numeral)
  finally have E: "E < 48" by (rule powi_less_cancel)
  define g where "g = max E (- 1022) - 52"
  have q: "quantum x = 2 powi g" by (simp add: quantum_def g_def E_def)
  from E have "g \<le> - 5" by (simp add: g_def)
  then have "(2::rat) powi g \<le> 2 powi (- 5)" by (intro power_int_increasing) simp_all
  also have "(2::rat) powi (- 5) = 1 / 2 ^ 5" by (simp add: power_int_minus_divide)
  finally have qle: "(2::rat) powi g \<le> 1 / 2 ^ 5" .
  define y where "y = rat_of_int (roundEven (x / 2 powi g)) * 2 powi g"
  have "y - x = (rat_of_int (roundEven (x / 2 powi g)) - x / 2 powi g) * 2 powi g"
    by (simp add: y_def algebra_simps)
  then have "\<bar>y - x\<bar> = \<bar>rat_of_int (roundEven (x / 2 powi g)) - x / 2 powi g\<bar> * 2 powi g"
    by (simp add: abs_mult)
  also have "\<dots> \<le> (1 / 2) * 2 powi g"
    by (intro mult_right_mono roundEven_error) simp
  also have "\<dots> \<le> (1 / 2) * (1 / 2 ^ 5)" using qle by simp
  finally have err: "\<bar>y - x\<bar> \<le> 1 / 2 ^ 6" by simp
  have "\<bar>y\<bar> \<le> \<bar>x\<bar> + \<bar>y - x\<bar>" by linarith
  also have "\<dots> < 2 ^ 48 + 1" using assms err by (intro add_less_le_mono) simp_all
  also have "(2::rat) ^ 48 + 1 < 2 ^ 1024" by simp
  finally have "\<bar>y\<bar> < 2 ^ 1024" .
  with False have "fl x = y" by (simp add: fl_def q y_def Let_def)
  with err show ?thesis by simp
qed

lemma fl_Ints: "x \<in> \<int> \<Longrightarrow> \<bar>x\<bar> < 2 ^ 53 \<Longrightarrow> fl x = x"
  by (elim Ints_cases) (simp add: fl_of_int flip: of_int_abs add: of_int_less_iff[symmetric] del: of_int_less_iff)


lemma whole_mono: "whole n v \<Longrightarrow> n \<le> m \<Longrightarrow> whole m v"
proof -
  assume a: "whole n v" and nm: "n \<le> m"
  have "(2::rat) ^ n \<le> 2 ^ m" using nm by (intro power_increasing) simp_all
  with a show ?thesis unfolding whole_def by linarith
qed

lemma whole_fl: "whole n v \<Longrightarrow> n \<le> 52 \<Longrightarrow> fl v = v"
proof -
  assume a: "whole n v" and n: "n \<le> 52"
  from whole_mono[OF a n] have v: "v \<in> \<int>" "\<bar>v\<bar> \<le> 2 ^ 52" by (simp_all add: whole_def)
  have "(2::rat) ^ 52 < 2 ^ 53" by simp
  with v(2) have "\<bar>v\<bar> < 2 ^ 53" by linarith
  with v(1) show ?thesis by (rule fl_Ints)
qed

lemma whole_add: "whole n a \<Longrightarrow> whole n b \<Longrightarrow> whole (Suc n) (a + b)"
  unfolding whole_def by (auto intro: Ints_add)

lemma whole_diff: "whole n a \<Longrightarrow> whole n b \<Longrightarrow> whole (Suc n) (a - b)"
  unfolding whole_def by (auto intro: Ints_diff)

lemma whole_fadd:
  assumes "whole n a" and "whole n b" and "n < 52"
  shows "fadd a b = a + b" and "whole (Suc n) (fadd a b)"
proof -
  from assms(3) have "Suc n \<le> 52" by simp
  from whole_fl[OF whole_add[OF assms(1,2)] this] show "fadd a b = a + b" by (simp add: fadd_def)
  with whole_add[OF assms(1,2)] show "whole (Suc n) (fadd a b)" by simp
qed

lemma whole_fsub:
  assumes "whole n a" and "whole n b" and "n < 52"
  shows "fsub a b = a - b" and "whole (Suc n) (fsub a b)"
proof -
  from assms(3) have "Suc n \<le> 52" by simp
  from whole_fl[OF whole_diff[OF assms(1,2)] this] show "fsub a b = a - b" by (simp add: fsub_def)
  with whole_diff[OF assms(1,2)] show "whole (Suc n) (fsub a b)" by simp
qed

lemma whole_min: "whole n a \<Longrightarrow> whole n b \<Longrightarrow> whole n (min a b)"
  by (simp add: min_def)

lemma whole_max: "whole n a \<Longrightarrow> whole n b \<Longrightarrow> whole n (max a b)"
  by (simp add: max_def)

lemma whole_abs: "whole n a \<Longrightarrow> whole n \<bar>a\<bar>"
  by (simp add: whole_def)

lemma whole_zero [simp]: "whole n 0"
  by (simp add: whole_def)

lemma whole_one [simp]: "whole n 1"
  by (simp add: whole_def)

lemma whole_times5:
  assumes "whole n a"
  shows "whole (n + 3) (a * 5)"
proof -
  from assms have "a * 5 \<in> \<int>" by (auto simp: whole_def intro: Ints_mult)
  moreover have "\<bar>a\<bar> \<le> 2 ^ n" using assms by (simp add: whole_def)
  then have "\<bar>a * 5\<bar> \<le> 2 ^ n * 2 ^ 3" by (simp add: abs_mult)
  ultimately show ?thesis by (simp add: whole_def power_add)
qed

lemma whole_fmul5:
  assumes "whole n a" and "n < 50"
  shows "fmul a 5 = a * 5" and "whole (n + 3) (fmul a 5)"
proof -
  from assms(2) have "n + 3 \<le> 52" by simp
  from whole_fl[OF whole_times5[OF assms(1)] this] show "fmul a 5 = a * 5" by (simp add: fmul_def)
  with whole_times5[OF assms(1)] show "whole (n + 3) (fmul a 5)" by simp
qed


lemma fl_fifth: "fl (1 / 5) = 3602879701896397 / 18014398509481984"
  using fl_near[of "-3" "1 / 5" 7205759403792794] by (simp add: power_int_minus)

lemma fl_above_integer:
  fixes n :: int
  assumes n0: "n \<noteq> 0" and nb: "\<bar>n\<bar> \<le> 2 ^ 45"
  shows "fl (of_int n + of_int n / 2 ^ 54) = of_int n"
proof -
  define t where "t = rat_of_int n + of_int n / 2 ^ 54"
  have tn: "t = of_int n * (1 + 1 / 2 ^ 54)" by (simp add: t_def algebra_simps)
  have tabs: "\<bar>t\<bar> = of_int \<bar>n\<bar> * (1 + 1 / 2 ^ 54)" by (simp add: tn abs_mult)
  from n0 have n1: "1 \<le> rat_of_int \<bar>n\<bar>" by (simp flip: of_int_abs add: of_int_le_iff[of 1, symmetric] del: of_int_le_iff) 
  have nt: "rat_of_int \<bar>n\<bar> \<le> \<bar>t\<bar>" unfolding tabs using n1 by (simp add: algebra_simps)
  with n1 have t1: "1 \<le> \<bar>t\<bar>" by linarith
  then have pos: "0 < \<bar>t\<bar>" by linarith
  define E where "E = expo \<bar>t\<bar>"
  note lo = expo_bounds(1)[OF pos, folded E_def] and hi = expo_bounds(2)[OF pos, folded E_def]
  have "(2::rat) powi 0 < 2 powi (E + 1)" using t1 hi by simp
  then have "0 < E + 1" by (rule powi_less_cancel)
  then have E0: "0 \<le> E" by simp
  have "rat_of_int \<bar>n\<bar> \<le> 2 ^ 45" using nb by (simp flip: of_int_abs add: of_int_le_iff[symmetric] del: of_int_le_iff)
  then have "\<bar>t\<bar> \<le> 2 ^ 45 * (1 + 1 / 2 ^ 54)" unfolding tabs by (intro mult_right_mono) simp_all
  also have "\<dots> < 2 ^ 46" by simp
  also have "(2::rat) ^ 46 = 2 powi 46" by (simp only: power_int_numeral)
  finally have "2 powi E < (2::rat) powi 46" using lo by linarith
  then have E46: "E < 46" by (rule powi_less_cancel)
  define e where "e = nat E"
  define j where "j = 52 - e"
  have Ee: "E = int e" using E0 by (simp add: e_def)
  have e45: "e \<le> 45" using E46 E0 by (simp add: e_def)
  have q: "(2::rat) powi (E - 52) = 1 / 2 ^ j"
  proof -
    have "E - 52 = - int j" using e45 by (simp add: Ee j_def)
    then show ?thesis by (simp add: power_int_minus_divide)
  qed
  have hi': "\<bar>t\<bar> < 2 ^ Suc e" using hi by (simp add: Ee power_int_add)
  have diff: "t / 2 powi (E - 52) - of_int (n * 2 ^ j) = of_int n * 2 ^ j / 2 ^ 54"
    by (simp add: q tn algebra_simps)
  have "\<bar>t / 2 powi (E - 52) - of_int (n * 2 ^ j)\<bar> = \<bar>rat_of_int n * 2 ^ j / 2 ^ 54\<bar>"
    by (simp only: diff)
  also have "\<dots> = of_int \<bar>n\<bar> * 2 ^ j / 2 ^ 54"
    by (simp add: abs_mult)
  also have "\<dots> < 2 ^ Suc e * 2 ^ j / 2 ^ 54"
    using nt hi' by (intro divide_strict_right_mono mult_strict_right_mono) simp_all
  also have "(2::rat) ^ Suc e * 2 ^ j = 2 ^ 53"
    using e45 by (simp add: j_def flip: power_add power_Suc)
  also have "(2::rat) ^ 53 / 2 ^ 54 = 1 / 2" by simp
  finally have near: "\<bar>t / 2 powi (E - 52) - of_int (n * 2 ^ j)\<bar> < 1 / 2" .
  have val: "rat_of_int (n * 2 ^ j) * 2 powi (E - 52) = of_int n" by (simp add: q)
  have "\<bar>rat_of_int n\<bar> \<le> 2 ^ 45" using \<open>rat_of_int \<bar>n\<bar> \<le> 2 ^ 45\<close> by simp
  also have "(2::rat) ^ 45 < 2 ^ 1024" by simp
  finally have r: "\<bar>rat_of_int (n * 2 ^ j) * 2 powi (E - 52)\<bar> < 2 ^ 1024" unfolding val .
  have "fl t = rat_of_int (n * 2 ^ j) * 2 powi (E - 52)"
    using lo hi _ near r by (rule fl_near) (use E0 in simp)
  then show ?thesis unfolding val t_def .
qed


lemma threshold_rounded:
  assumes W: "whole 42 W" and I: "I \<in> \<int>"
  shows "(fmul W (fl (20 / 100)) \<le> I) = ((20 / 100) * W \<le> I)"
proof -
  from W obtain w where w: "W = of_int w" by (auto simp: whole_def elim: Ints_cases)
  from I obtain i where i: "I = of_int i" by (auto elim: Ints_cases)
  from W have Wb: "\<bar>W\<bar> \<le> 2 ^ 42" by (simp add: whole_def)
  then have wb: "\<bar>w\<bar> \<le> 2 ^ 42"
    unfolding w by (simp flip: of_int_abs add: of_int_le_iff[symmetric] del: of_int_le_iff)
  define t where "t = W * (3602879701896397 / 18014398509481984)"
  have fm: "fmul W (fl (20 / 100)) = fl t" by (simp add: fmul_def fl_fifth t_def)
  have tW: "t = W / 5 + W / 5 / 2 ^ 54" by (simp add: t_def)
  show ?thesis
  proof (cases "5 dvd w")
    case True
    then obtain n where n: "w = 5 * n" by (auto elim: dvdE)
    have tn: "t = of_int n + of_int n / 2 ^ 54" by (simp add: tW w n)
    have "fl t = of_int n"
    proof (cases "n = 0")
      case True
      then show ?thesis by (simp add: tn)
    next
      case False
      from wb n have "\<bar>n\<bar> \<le> 2 ^ 45" by simp
      from fl_above_integer[OF False this] show ?thesis by (simp add: tn)
    qed
    then show ?thesis unfolding fm by (simp add: w n i)
  next
    case False
    have "\<bar>t\<bar> = \<bar>W\<bar> * (3602879701896397 / 18014398509481984)"
      by (simp add: t_def abs_mult)
    also have "\<dots> \<le> 2 ^ 42 * (3602879701896397 / 18014398509481984)"
      using Wb by (intro mult_right_mono) simp_all
    also have "\<dots> < 2 ^ 48" by simp
    finally have "\<bar>fl t - t\<bar> \<le> 1 / 2 ^ 6" by (rule fl_error_small)
    then have err: "\<bar>fl t - t\<bar> \<le> 1 / 64" by simp
    have "\<bar>t - W / 5\<bar> = \<bar>W\<bar> / 5 / 2 ^ 54" by (simp add: tW)
    also have "\<dots> \<le> 2 ^ 42 / 5 / 2 ^ 54"
      using Wb by (intro divide_right_mono) simp_all
    also have "\<dots> \<le> 1 / 64" by simp
    finally have d: "\<bar>t - W / 5\<bar> \<le> 1 / 64" .
    from False have ne: "w \<noteq> 5 * i" by auto
    show ?thesis
    proof (cases "w \<le> 5 * i")
      case True
      with ne have "w + 1 \<le> 5 * i" by simp
      then have "rat_of_int (w + 1) \<le> of_int (5 * i)" by (simp only: of_int_le_iff)
      then have "W / 5 + 1 / 5 \<le> I" by (simp add: w i)
      with err d have "fl t \<le> I" by linarith
      moreover from \<open>W / 5 + 1 / 5 \<le> I\<close> have "(20 / 100) * W \<le> I" by simp
      ultimately show ?thesis unfolding fm by simp
    next
      case False
      then have "5 * i + 1 \<le> w" by simp
      then have "rat_of_int (5 * i + 1) \<le> of_int w" by (simp only: of_int_le_iff)
      then have "I + 1 / 5 \<le> W / 5" by (simp add: w i)
      with err d have "\<not> fl t \<le> I" by linarith
      moreover from \<open>I + 1 / 5 \<le> W / 5\<close> have "\<not> (20 / 100) * W \<le> I" by simp
      ultimately show ?thesis unfolding fm by simp
    qed
  qed
qed

lemma fl_fifths_order:
  fixes a b :: int
  assumes "\<bar>a\<bar> \<le> 2 ^ 50" and "\<bar>b\<bar> \<le> 2 ^ 50"
  shows "(fl (of_int a / 5) \<le> fl (of_int b / 5)) = (a \<le> b)"
proof -
  have small: "\<bar>rat_of_int c / 5\<bar> < 2 ^ 48" if "\<bar>c\<bar> \<le> 2 ^ 50" for c
  proof -
    from that have "\<bar>rat_of_int c\<bar> \<le> 2 ^ 50"
      by (simp flip: of_int_abs add: of_int_le_iff[symmetric] del: of_int_le_iff)
    then have "\<bar>rat_of_int c / 5\<bar> \<le> 2 ^ 50 / 5" by simp
    also have "\<dots> < 2 ^ 48" by simp
    finally show ?thesis .
  qed
  from fl_error_small[OF small[OF assms(1)]] fl_error_small[OF small[OF assms(2)]]
  have ea: "\<bar>fl (of_int a / 5) - of_int a / 5\<bar> \<le> 1 / 64"
    and eb: "\<bar>fl (of_int b / 5) - of_int b / 5\<bar> \<le> 1 / 64" by simp_all
  consider "a < b" | "a = b" | "b < a" by linarith
  then show ?thesis
  proof cases
    case 1
    then have "a + 1 \<le> b" by simp
    then have "rat_of_int (a + 1) \<le> of_int b" by (simp only: of_int_le_iff)
    then have "rat_of_int a / 5 + 1 / 5 \<le> of_int b / 5" by simp
    with ea eb have "fl (of_int a / 5) \<le> fl (of_int b / 5)" by linarith
    with 1 show ?thesis by simp
  next
    case 2
    then show ?thesis by simp
  next
    case 3
    then have "b + 1 \<le> a" by simp
    then have "rat_of_int (b + 1) \<le> of_int a" by (simp only: of_int_le_iff)
    then have "rat_of_int b / 5 + 1 / 5 \<le> of_int a / 5" by simp
    with ea eb have "\<not> fl (of_int a / 5) \<le> fl (of_int b / 5)" by linarith
    with 3 show ?thesis by simp
  qed
qed

section \<open>The directional ranking\<close>

lemmas direction_defs = DIRECTION_LEFT_def DIRECTION_RIGHT_def DIRECTION_UP_def DIRECTION_DOWN_def

lemmas weight_defs = ADJACENT_SLICE_THRESHOLD_def ADJACENT_SLICE_WEIGHT_def
  DIAGONAL_SLICE_WEIGHT_def MAIN_COORDINATE_WEIGHT_def

lemmas spec_defs = spec_score_def spec_adjacent_def spec_overlap_def spec_crossEnd_def
  spec_crossStart_def spec_vertical_def spec_axisDistance_def spec_crossDistance_def
  spec_originEdge_def spec_candidateEdge_def

lemmas rounded_defs = rounded_score_def rounded_adjacent_def rounded_overlap_def
  rounded_crossEnd_def spec_crossStart_def spec_vertical_def rounded_axisDistance_def
  rounded_crossDistance_def rounded_originEdge_def rounded_candidateEdge_def

lemma Min_of_four: "Min (set [a, b, c, d :: rat]) = min (min a b) (min c d)"
  by (simp add: min.assoc)

lemma getRefCorners_up:
  "getRefCorners ''up'' isSibling lay =
     \<lparr>corner_a = corner (left lay) (if isSibling then fadd (top lay) (height lay) else top lay),
      corner_b = corner (fadd (left lay) (width lay))
                   (if isSibling then fadd (top lay) (height lay) else top lay)\<rparr>"
  by (simp add: getRefCorners_def direction_defs Let_def)

lemma getRefCorners_down:
  "getRefCorners ''down'' isSibling lay =
     \<lparr>corner_a = corner (left lay) (if isSibling then top lay else fadd (top lay) (height lay)),
      corner_b = corner (fadd (left lay) (width lay))
                   (if isSibling then top lay else fadd (top lay) (height lay))\<rparr>"
  by (simp add: getRefCorners_def direction_defs Let_def)

lemma getRefCorners_left:
  "getRefCorners ''left'' isSibling lay =
     \<lparr>corner_a = corner (if isSibling then fadd (left lay) (width lay) else left lay) (top lay),
      corner_b = corner (if isSibling then fadd (left lay) (width lay) else left lay)
                   (fadd (top lay) (height lay))\<rparr>"
  by (simp add: getRefCorners_def direction_defs Let_def)

lemma getRefCorners_right:
  "getRefCorners ''right'' isSibling lay =
     \<lparr>corner_a = corner (if isSibling then left lay else fadd (left lay) (width lay)) (top lay),
      corner_b = corner (if isSibling then left lay else fadd (left lay) (width lay))
                   (fadd (top lay) (height lay))\<rparr>"
  by (simp add: getRefCorners_def direction_defs Let_def)

lemmas getRefCorners_direction =
  getRefCorners_up getRefCorners_down getRefCorners_left getRefCorners_right

lemma getIsAdjacentSlice_rounded:
  assumes "d \<in> {''up'', ''down'', ''left'', ''right''}"
  shows "getIsAdjacentSlice (getRefCorners d False origin) (getRefCorners d True cand)
           (d = DIRECTION_DOWN \<or> d = DIRECTION_UP) = rounded_adjacent d origin cand"
proof -
  from assms consider "d = ''up''" | "d = ''down''" | "d = ''left''" | "d = ''right''" by auto
  then show ?thesis
    by cases
      (simp_all add: getRefCorners_direction getIsAdjacentSlice_def rounded_adjacent_def
        rounded_overlap_def rounded_crossEnd_def spec_crossStart_def spec_vertical_def
        coordinate_of_def corner_def direction_defs weight_defs Let_def)
qed

lemma getPrimaryAxisDistance_rounded:
  assumes "d \<in> {''up'', ''down'', ''left'', ''right''}"
  shows "getPrimaryAxisDistance (getRefCorners d False origin) (getRefCorners d True cand)
           (d = DIRECTION_DOWN \<or> d = DIRECTION_UP) = rounded_axisDistance d origin cand"
proof -
  from assms consider "d = ''up''" | "d = ''down''" | "d = ''left''" | "d = ''right''" by auto
  then show ?thesis
    by cases
      (simp_all add: getRefCorners_direction getPrimaryAxisDistance_def rounded_axisDistance_def
        rounded_originEdge_def rounded_candidateEdge_def coordinate_of_def corner_def
        direction_defs Let_def)
qed

lemma getSecondaryAxisDistance_rounded:
  assumes "d \<in> {''up'', ''down'', ''left'', ''right''}"
  shows "getSecondaryAxisDistance (getRefCorners d False origin) (getRefCorners d True cand)
           (d = DIRECTION_DOWN \<or> d = DIRECTION_UP) = rounded_crossDistance d origin cand"
proof -
  from assms consider "d = ''up''" | "d = ''down''" | "d = ''left''" | "d = ''right''" by auto
  then show ?thesis
    unfolding getSecondaryAxisDistance_def Let_def Min_of_four
    by cases
      (simp_all add: getRefCorners_direction rounded_crossDistance_def rounded_crossEnd_def
        spec_crossStart_def spec_vertical_def coordinate_of_def corner_def direction_defs)
qed

lemma priority_rounded:
  assumes "d \<in> {''up'', ''down'', ''left'', ''right''}"
  shows "priority origin d sibling = rounded_score d origin (layout sibling)"
  unfolding priority_def Let_def rounded_score_def
  by (simp add: getIsAdjacentSlice_rounded[OF assms] getPrimaryAxisDistance_rounded[OF assms]
      getSecondaryAxisDistance_rounded[OF assms] ADJACENT_SLICE_WEIGHT_def
      DIAGONAL_SLICE_WEIGHT_def MAIN_COORDINATE_WEIGHT_def)

lemma first_sort_key_least:
  assumes "first (sort_key f xs) = Some n"
  shows "n \<in> set xs \<and> (\<forall>c \<in> set xs. f n \<le> f c)"
proof -
  from assms obtain rest where eq: "sort_key f xs = n # rest"
    by (auto simp: first_def split: list.splits)
  have same: "set (sort_key f xs) = set xs" by simp
  with eq have n: "n \<in> set xs" by auto
  have "sorted (map f (sort_key f xs))" by (rule sorted_sort_key)
  with eq have "\<forall>c \<in> set rest. f n \<le> f c" by auto
  moreover have "set xs = insert n (set rest)" using eq same by auto
  ultimately show ?thesis using n by auto
qed

lemma first_sortBy_mem: "first (sortBy xs f) = Some v \<Longrightarrow> v \<in> set xs"
proof -
  assume "first (sortBy xs f) = Some v"
  then obtain rest where "sort_key f xs = v # rest"
    by (auto simp: first_def sortBy_def split: list.splits)
  then show ?thesis by (metis list.set_intros(1) set_sort)
qed

lemma first_sortBy_None: "first (sortBy xs f) = None \<longleftrightarrow> xs = []"
proof -
  have "(sort_key f xs = []) = (xs = [])"
    by (metis length_sort length_0_conv)
  then show ?thesis by (auto simp: first_def sortBy_def split: list.splits)
qed

lemma insort_key_order:
  assumes "\<forall>y \<in> set ys. (f x \<le> f y) = (g x \<le> g y)"
  shows "insort_key f x ys = insort_key g x ys"
  using assms by (induction ys) simp_all

lemma sort_key_order:
  assumes "\<forall>a \<in> set xs. \<forall>b \<in> set xs. (f a \<le> f b) = (g a \<le> g b)"
  shows "sort_key f xs = sort_key g xs"
  using assms
proof (induction xs)
  case Nil
  show ?case by simp
next
  case (Cons x xs)
  then have IH: "sort_key f xs = sort_key g xs" by simp
  have "insort_key f x (sort_key g xs) = insort_key g x (sort_key g xs)"
    using Cons.prems by (intro insort_key_order) simp
  with IH show ?case by simp
qed


lemma integral_sums:
  assumes "integral box"
  shows "fadd (left box) (width box) = left box + width box"
    and "fadd (top box) (height box) = top box + height box"
    and "whole 41 (left box + width box)" and "whole 41 (top box + height box)"
    and "whole 41 (left box)" and "whole 41 (top box)"
proof -
  from assms have f: "whole 40 (left box)" "whole 40 (top box)" "whole 40 (width box)"
    "whole 40 (height box)" by (simp_all add: integral_def)
  show "fadd (left box) (width box) = left box + width box"
    by (rule whole_fadd(1)[OF f(1) f(3)]) simp
  show "fadd (top box) (height box) = top box + height box"
    by (rule whole_fadd(1)[OF f(2) f(4)]) simp
  from whole_add[OF f(1) f(3)] show "whole 41 (left box + width box)" by simp
  from whole_add[OF f(2) f(4)] show "whole 41 (top box + height box)" by simp
  from f(1) show "whole 41 (left box)" by (rule whole_mono) simp
  from f(2) show "whole 41 (top box)" by (rule whole_mono) simp
qed

lemma integral_edges:
  assumes "integral box"
  shows "rounded_crossEnd d box = spec_crossEnd d box"
    and "rounded_originEdge d box = spec_originEdge d box"
    and "rounded_candidateEdge d box = spec_candidateEdge d box"
    and "whole 41 (spec_crossEnd d box)" and "whole 41 (spec_crossStart d box)"
    and "whole 41 (spec_originEdge d box)" and "whole 41 (spec_candidateEdge d box)"
  using integral_sums[OF assms]
  by (simp_all add: rounded_crossEnd_def spec_crossEnd_def rounded_originEdge_def
      spec_originEdge_def rounded_candidateEdge_def spec_candidateEdge_def spec_crossStart_def)

lemma integral_overlap:
  assumes o: "integral origin" and c: "integral cand"
  shows "rounded_overlap d origin cand = spec_overlap d origin cand"
    and "whole 42 (spec_overlap d origin cand)"
proof -
  note eo = integral_edges[OF o, of d] and ec = integral_edges[OF c, of d]
  have mn: "whole 41 (min (spec_crossEnd d origin) (spec_crossEnd d cand))"
    by (rule whole_min[OF eo(4) ec(4)])
  have mx: "whole 41 (max (spec_crossStart d origin) (spec_crossStart d cand))"
    by (rule whole_max[OF eo(5) ec(5)])
  have lt: "(41::nat) < 52" by simp
  from whole_fsub(1)[OF mn mx lt]
  show eq: "rounded_overlap d origin cand = spec_overlap d origin cand"
    by (simp add: rounded_overlap_def spec_overlap_def eo(1) ec(1))
  from whole_diff[OF mn mx] have "whole 42 (max 0 (min (spec_crossEnd d origin) (spec_crossEnd d cand)
            - max (spec_crossStart d origin) (spec_crossStart d cand)))"
    by (intro whole_max) simp_all
  then show "whole 42 (spec_overlap d origin cand)" by (simp add: spec_overlap_def)
qed

lemma integral_adjacent:
  assumes o: "integral origin" and c: "integral cand"
  shows "rounded_adjacent d origin cand = spec_adjacent d origin cand"
proof -
  note eo = integral_edges[OF o, of d]
  have lt: "(41::nat) < 52" by simp
  from whole_fsub[OF eo(4) eo(5) lt]
  have ext: "fsub (spec_crossEnd d origin) (spec_crossStart d origin)
               = spec_crossEnd d origin - spec_crossStart d origin"
    and w: "whole 42 (spec_crossEnd d origin - spec_crossStart d origin)" by simp_all
  from integral_overlap(2)[OF o c, of d] have "spec_overlap d origin cand \<in> \<int>"
    by (simp add: whole_def)
  from threshold_rounded[OF w this] show ?thesis
    by (simp add: rounded_adjacent_def spec_adjacent_def eo(1) ext integral_overlap(1)[OF o c])
qed

lemma integral_distances:
  assumes o: "integral origin" and c: "integral cand"
  shows "rounded_axisDistance d origin cand = spec_axisDistance d origin cand"
    and "rounded_crossDistance d origin cand = spec_crossDistance d origin cand"
    and "whole 42 (spec_axisDistance d origin cand)"
    and "whole 42 (spec_crossDistance d origin cand)"
proof -
  note eo = integral_edges[OF o, of d] and ec = integral_edges[OF c, of d]
  have lt: "(41::nat) < 52" by simp
  note ax = whole_fsub[OF ec(7) eo(6) lt]
  note c1 = whole_fsub[OF ec(5) eo(5) lt] and c2 = whole_fsub[OF ec(5) eo(4) lt]
    and c3 = whole_fsub[OF ec(4) eo(5) lt] and c4 = whole_fsub[OF ec(4) eo(4) lt]
  show "rounded_axisDistance d origin cand = spec_axisDistance d origin cand"
    by (simp add: rounded_axisDistance_def spec_axisDistance_def eo(2) ec(3) ax(1))
  show "rounded_crossDistance d origin cand = spec_crossDistance d origin cand"
    by (simp add: rounded_crossDistance_def spec_crossDistance_def eo(1) ec(1)
        c1(1) c2(1) c3(1) c4(1))
  from ax show "whole 42 (spec_axisDistance d origin cand)"
    by (simp add: spec_axisDistance_def whole_abs)
  from c1 c2 c3 c4 show "whole 42 (spec_crossDistance d origin cand)"
    unfolding spec_crossDistance_def by (intro whole_min whole_abs) simp_all
qed

lemma whole_numerator:
  assumes p: "whole 42 p" and q: "whole 42 q"
  shows "fadd (fadd (fmul p 5) q) 1 = p * 5 + q + 1" and "whole 47 (p * 5 + q + 1)"
proof -
  have l1: "(42::nat) < 50" and l2: "(45::nat) < 52" and l3: "(46::nat) < 52" by simp_all
  from whole_fmul5[OF p l1] have m: "fmul p 5 = p * 5" "whole 45 (p * 5)" by simp_all
  from q have q45: "whole 45 q" by (rule whole_mono) simp
  from whole_fadd[OF m(2) q45 l2] have a: "fadd (p * 5) q = p * 5 + q" "whole 46 (p * 5 + q)"
    by simp_all
  from whole_fadd[OF a(2) whole_one l3] have b: "fadd (p * 5 + q) 1 = p * 5 + q + 1"
    "whole 47 (p * 5 + q + 1)" by simp_all
  show "fadd (fadd (fmul p 5) q) 1 = p * 5 + q + 1" by (simp add: m(1) a(1) b(1))
  show "whole 47 (p * 5 + q + 1)" by (rule b(2))
qed

lemma integral_score:
  assumes o: "integral origin" and c: "integral cand"
  shows "\<exists>a. \<bar>a\<bar> \<le> 2 ^ 50 \<and> spec_score d origin cand = of_int a / 5 \<and>
             rounded_score d origin cand = fl (of_int a / 5)"
proof -
  note dist = integral_distances[OF o c, of d]
  note adj = integral_adjacent[OF o c, of d]
  have fifth: "\<exists>a. \<bar>a\<bar> \<le> 2 ^ 50 \<and> N / w = of_int a / 5 \<and> fdiv N w = fl (of_int a / 5)"
    if N: "whole 47 N" and w: "w = 5 \<or> w = 1" for N w :: rat
  proof -
    from N obtain n where n: "N = of_int n" by (auto simp: whole_def elim: Ints_cases)
    from N have "\<bar>rat_of_int n\<bar> \<le> 2 ^ 47" by (simp add: whole_def n)
    then have nb: "\<bar>n\<bar> \<le> 2 ^ 47"
      by (simp flip: of_int_abs add: of_int_le_iff[symmetric] del: of_int_le_iff)
    from w show ?thesis
    proof
      assume "w = 5"
      with nb show ?thesis by (intro exI[of _ n]) (simp add: n fdiv_def)
    next
      assume "w = 1"
      with nb show ?thesis by (intro exI[of _ "5 * n"]) (simp add: n fdiv_def)
    qed
  qed
  show ?thesis
  proof (cases "spec_adjacent d origin cand")
    case True
    note num = whole_numerator[OF dist(3) dist(4)]
    from fifth[OF num(2), of 5] True show ?thesis
      by (simp add: spec_score_def rounded_score_def adj dist(1,2) num(1))
  next
    case False
    note num = whole_numerator[OF dist(4) dist(3)]
    from fifth[OF num(2), of 1] False show ?thesis
      by (simp add: spec_score_def rounded_score_def adj dist(1,2) num(1))
  qed
qed

lemma integral_order:
  assumes o: "integral origin" and a: "integral c1" and b: "integral c2"
  shows "(rounded_score d origin c1 \<le> rounded_score d origin c2)
           = (spec_score d origin c1 \<le> spec_score d origin c2)"
proof -
  from integral_score[OF o a, of d] obtain x where x: "\<bar>x\<bar> \<le> 2 ^ 50"
    "spec_score d origin c1 = of_int x / 5" "rounded_score d origin c1 = fl (of_int x / 5)"
    by blast
  from integral_score[OF o b, of d] obtain y where y: "\<bar>y\<bar> \<le> 2 ^ 50"
    "spec_score d origin c2 = of_int y / 5" "rounded_score d origin c2 = fl (of_int y / 5)"
    by blast
  from fl_fifths_order[OF x(1) y(1)] show ?thesis by (simp add: x y)
qed

text \<open>
  Claim C1, amended.  For each of the four directions, an origin layout and candidate
  siblings with coordinates of magnitude at most \<open>2 ^ 1000\<close>: the ranking is the claimed one
  computed in double arithmetic.  A candidate is an adjacent slice exactly when the rounded
  overlap is at least the rounded product of the origin's cross-axis extent and the double
  \<open>0.2\<close>; its priority is \<open>(primary * 5 + secondary + 1)\<close> divided by 5 for an adjacent
  candidate and by 1 for a diagonal one, every operation rounded, where primary and
  secondary are the axis distance and the cross-axis distance, swapped for a diagonal
  candidate; \<open>sortSiblingsByPriority\<close> is the stable ascending sort by this priority; of no
  candidates none is first, and otherwise the first is a candidate of least priority.
  When all coordinates are integers of at most 40 bits the rounding changes nothing:
  adjacency is an overlap of at least 20 percent of the extent, and the order is the stable
  ascending order of the exact score.
\<close>

theorem sortSiblingsByPriority_ranking:
  assumes "direction \<in> {''up'', ''down'', ''left'', ''right''}"
    and "inRange currentLayout"
    and "\<forall>c \<in> set siblings. inRange (layout c)"
  shows "(\<forall>c \<in> set siblings.
            getIsAdjacentSlice (getRefCorners direction False currentLayout)
              (getRefCorners direction True (layout c))
              (direction = DIRECTION_DOWN \<or> direction = DIRECTION_UP)
            = rounded_adjacent direction currentLayout (layout c) \<and>
            priority currentLayout direction c
            = rounded_score direction currentLayout (layout c)) \<and>
         sortSiblingsByPriority siblings currentLayout direction
           = sort_key (\<lambda>c. rounded_score direction currentLayout (layout c)) siblings \<and>
         (siblings = [] \<longrightarrow>
            first (sortSiblingsByPriority siblings currentLayout direction) = None) \<and>
         (siblings \<noteq> [] \<longrightarrow>
            (\<exists>n. first (sortSiblingsByPriority siblings currentLayout direction) = Some n \<and>
                 n \<in> set siblings \<and>
                 (\<forall>c \<in> set siblings. rounded_score direction currentLayout (layout n)
                                        \<le> rounded_score direction currentLayout (layout c)))) \<and>
         (integral currentLayout \<and> (\<forall>c \<in> set siblings. integral (layout c)) \<longrightarrow>
            (\<forall>c \<in> set siblings.
               getIsAdjacentSlice (getRefCorners direction False currentLayout)
                 (getRefCorners direction True (layout c))
                 (direction = DIRECTION_DOWN \<or> direction = DIRECTION_UP)
               = (spec_overlap direction currentLayout (layout c)
                    \<ge> (20 / 100) * (spec_crossEnd direction currentLayout
                                       - spec_crossStart direction currentLayout))) \<and>
            sortSiblingsByPriority siblings currentLayout direction
              = sort_key (\<lambda>c. spec_score direction currentLayout (layout c)) siblings \<and>
            (\<forall>n. first (sortSiblingsByPriority siblings currentLayout direction) = Some n \<longrightarrow>
                  (\<forall>c \<in> set siblings. spec_score direction currentLayout (layout n)
                                         \<le> spec_score direction currentLayout (layout c))))"
proof -
  let ?rounded = "\<lambda>c. rounded_score direction currentLayout (layout c)"
  let ?exact = "\<lambda>c. spec_score direction currentLayout (layout c)"
  let ?sorted = "sortSiblingsByPriority siblings currentLayout direction"
  have pri: "priority currentLayout direction = ?rounded"
    by (rule ext) (rule priority_rounded[OF assms(1)])
  have eq: "?sorted = sort_key ?rounded siblings"
    by (simp add: sortSiblingsByPriority_def sortBy_def pri)
  have each: "\<forall>c \<in> set siblings.
            getIsAdjacentSlice (getRefCorners direction False currentLayout)
              (getRefCorners direction True (layout c))
              (direction = DIRECTION_DOWN \<or> direction = DIRECTION_UP)
            = rounded_adjacent direction currentLayout (layout c) \<and>
            priority currentLayout direction c = ?rounded c"
    by (simp add: getIsAdjacentSlice_rounded[OF assms(1)] pri)
  have none: "siblings = [] \<longrightarrow> first ?sorted = None"
    by (simp add: sortSiblingsByPriority_def first_sortBy_None)
  have some: "siblings \<noteq> [] \<longrightarrow>
            (\<exists>n. first ?sorted = Some n \<and> n \<in> set siblings \<and>
                 (\<forall>c \<in> set siblings. ?rounded n \<le> ?rounded c))"
  proof
    assume "siblings \<noteq> []"
    then have "first ?sorted \<noteq> None"
      by (simp add: sortSiblingsByPriority_def first_sortBy_None)
    then obtain n where n: "first ?sorted = Some n" by (cases "first ?sorted") auto
    from first_sort_key_least[OF n[unfolded eq]] n
    show "\<exists>n. first ?sorted = Some n \<and> n \<in> set siblings \<and>
                 (\<forall>c \<in> set siblings. ?rounded n \<le> ?rounded c)" by blast
  qed
  have exact: "integral currentLayout \<and> (\<forall>c \<in> set siblings. integral (layout c)) \<longrightarrow>
            (\<forall>c \<in> set siblings.
               getIsAdjacentSlice (getRefCorners direction False currentLayout)
                 (getRefCorners direction True (layout c))
                 (direction = DIRECTION_DOWN \<or> direction = DIRECTION_UP)
               = (spec_overlap direction currentLayout (layout c)
                    \<ge> (20 / 100) * (spec_crossEnd direction currentLayout
                                       - spec_crossStart direction currentLayout))) \<and>
            ?sorted = sort_key ?exact siblings \<and>
            (\<forall>n. first ?sorted = Some n \<longrightarrow> (\<forall>c \<in> set siblings. ?exact n \<le> ?exact c))"
  proof
    assume "integral currentLayout \<and> (\<forall>c \<in> set siblings. integral (layout c))"
    then have o: "integral currentLayout" and c: "\<And>c. c \<in> set siblings \<Longrightarrow> integral (layout c)"
      by auto
    have adj: "\<forall>c \<in> set siblings.
               getIsAdjacentSlice (getRefCorners direction False currentLayout)
                 (getRefCorners direction True (layout c))
                 (direction = DIRECTION_DOWN \<or> direction = DIRECTION_UP)
               = (spec_overlap direction currentLayout (layout c)
                    \<ge> (20 / 100) * (spec_crossEnd direction currentLayout
                                       - spec_crossStart direction currentLayout))"
      using integral_adjacent[OF o c]
      by (simp add: getIsAdjacentSlice_rounded[OF assms(1)] spec_adjacent_def)
    have "sort_key ?rounded siblings = sort_key ?exact siblings"
      by (rule sort_key_order) (simp add: integral_order[OF o c c])
    with eq have srt: "?sorted = sort_key ?exact siblings" by simp
    have "\<forall>n. first (sort_key ?exact siblings) = Some n \<longrightarrow>
            (\<forall>c \<in> set siblings. ?exact n \<le> ?exact c)"
      using first_sort_key_least[of ?exact siblings] by blast
    with adj srt show "(\<forall>c \<in> set siblings.
               getIsAdjacentSlice (getRefCorners direction False currentLayout)
                 (getRefCorners direction True (layout c))
                 (direction = DIRECTION_DOWN \<or> direction = DIRECTION_UP)
               = (spec_overlap direction currentLayout (layout c)
                    \<ge> (20 / 100) * (spec_crossEnd direction currentLayout
                                       - spec_crossStart direction currentLayout))) \<and>
            ?sorted = sort_key ?exact siblings \<and>
            (\<forall>n. first ?sorted = Some n \<longrightarrow> (\<forall>c \<in> set siblings. ?exact n \<le> ?exact c))"
      by simp
  qed
  from each eq none some exact show ?thesis by (intro conjI)
qed

theorem sortSiblingsByPriority_ranking_witness:
  "''right'' \<in> {''up'', ''down'', ''left'', ''right''} \<and>
   inRange (exampleLayout 0 0 10 10) \<and>
   inRange (layout (exampleComponent ''C'' ''P'' (exampleLayout 0 20 10 10))) \<and>
   inRange (layout (exampleComponent ''B'' ''P'' (exampleLayout 20 0 10 10))) \<and>
   integral (exampleLayout 0 0 10 10) \<and>
   integral (layout (exampleComponent ''C'' ''P'' (exampleLayout 0 20 10 10))) \<and>
   integral (layout (exampleComponent ''B'' ''P'' (exampleLayout 20 0 10 10))) \<and>
   map focusKey
     (sortSiblingsByPriority
        [exampleComponent ''C'' ''P'' (exampleLayout 0 20 10 10),
         exampleComponent ''B'' ''P'' (exampleLayout 20 0 10 10)]
        (exampleLayout 0 0 10 10) ''right'') = [''B'', ''C''] \<and>
   map_option focusKey
     (first (sortSiblingsByPriority
        [exampleComponent ''C'' ''P'' (exampleLayout 0 20 10 10),
         exampleComponent ''B'' ''P'' (exampleLayout 20 0 10 10)]
        (exampleLayout 0 0 10 10) ''right'')) = Some ''B''"
proof -
  let ?origin = "exampleLayout 0 0 10 10"
  let ?B = "exampleComponent ''B'' ''P'' (exampleLayout 20 0 10 10)"
  let ?C = "exampleComponent ''C'' ''P'' (exampleLayout 0 20 10 10)"
  have d: "''right'' \<in> {''up'', ''down'', ''left'', ''right''}" by simp
  have ro: "inRange ?origin" by (simp add: inRange_def exampleLayout_def)
  have rc: "\<forall>c \<in> set [?C, ?B]. inRange (layout c)"
    by (simp add: inRange_def exampleComponent_def exampleLayout_def)
  have io: "integral ?origin" by (simp add: integral_def whole_def exampleLayout_def)
  have ic: "\<forall>c \<in> set [?C, ?B]. integral (layout c)"
    by (simp add: integral_def whole_def exampleComponent_def exampleLayout_def)
  from sortSiblingsByPriority_ranking[OF d ro rc] io ic have srt:
    "sortSiblingsByPriority [?C, ?B] ?origin ''right''
       = sort_key (\<lambda>c. spec_score ''right'' ?origin (layout c)) [?C, ?B]"
    by blast
  have scoreB: "spec_score ''right'' ?origin (layout ?B) = 51 / 5"
    by (simp add: spec_defs exampleComponent_def exampleLayout_def)
  have scoreC: "spec_score ''right'' ?origin (layout ?C) = 61"
    by (simp add: spec_defs exampleComponent_def exampleLayout_def)
  have keys: "focusKey ?B = ''B''" "focusKey ?C = ''C''"
    by (simp_all add: exampleComponent_def)
  have sorted: "sortSiblingsByPriority [?C, ?B] ?origin ''right'' = [?B, ?C]"
    unfolding srt by (simp add: scoreB scoreC)
  have "map focusKey (sortSiblingsByPriority [?C, ?B] ?origin ''right'') = [''B'', ''C'']"
    "map_option focusKey (first (sortSiblingsByPriority [?C, ?B] ?origin ''right'')) = Some ''B''"
    unfolding sorted by (simp_all add: keys first_def)
  with d ro rc io ic show ?thesis by simp
qed

text \<open>The values of the roundings in the ranking of \<open>S1\<close> and \<open>S2\<close>.\<close>

lemma slice_values:
  "fl (16 / 5) = 3602879701896397 / 1125899906842624"
  "fl (1 / 5) = 3602879701896397 / 18014398509481984"
  "fadd (3602879701896397 / 1125899906842624) 5 = 2308094809027379 / 281474976710656"
  "fsub (2308094809027379 / 281474976710656) (3602879701896397 / 1125899906842624)
     = 5629499534213119 / 1125899906842624"
  "fmul 25 (3602879701896397 / 18014398509481984) = 5"
proof -
  show "fl (16 / 5) = 3602879701896397 / 1125899906842624"
    using fl_near[of 1 "16 / 5" 7205759403792794] by simp
  show "fl (1 / 5) = 3602879701896397 / 18014398509481984"
    using fl_near[of "-3" "1 / 5" 7205759403792794] by (simp add: power_int_minus)
  show "fadd (3602879701896397 / 1125899906842624) 5 = 2308094809027379 / 281474976710656"
    unfolding fadd_def
    using fl_tie[of 3 "3602879701896397 / 1125899906842624 + 5" 4616189618054758] by simp
  show "fsub (2308094809027379 / 281474976710656) (3602879701896397 / 1125899906842624)
     = 5629499534213119 / 1125899906842624"
    unfolding fsub_def
    using fl_near[of 2 "2308094809027379 / 281474976710656 - 3602879701896397 / 1125899906842624"
                    5629499534213119] by simp
  show "fmul 25 (3602879701896397 / 18014398509481984) = 5"
    unfolding fmul_def
    using fl_near[of 2 "25 * (3602879701896397 / 18014398509481984)" "5 * 2 ^ 50"] by simp
qed

lemma slice_small:
  "fadd 0 10 = 10" "fadd 0 25 = 25" "fsub 25 0 = 25" "fsub 20 10 = 10" "fsub 30 10 = 20"
  "fsub 0 0 = 0" "fsub 0 25 = - 25" "fsub 25 25 = 0" "fmul 20 5 = 100" "fadd 100 0 = 100"
  "fadd 100 1 = 101" "fadd 16 10 = 26" "fadd 26 1 = 27" "fdiv 27 1 = 27"
  by (simp_all add: arith_defs)

lemma S1_adj:
  "\<not> getIsAdjacentSlice (getRefCorners ''right'' False sliceOrigin)
       (getRefCorners ''right'' True (layout sliceS1)) (''right'' = DIRECTION_DOWN \<or> ''right'' = DIRECTION_UP)"
  by (simp add: getRefCorners_right getIsAdjacentSlice_def sliceOrigin_def sliceS1_def
       exampleComponent_def exampleLayout_def coordinate_of_def corner_def direction_defs
       ADJACENT_SLICE_THRESHOLD_def slice_values slice_small Let_def)


lemma slice_values2:
  "fl (3602879701896397 / 1125899906842624) = 3602879701896397 / 1125899906842624"
  "fl (2308094809027379 / 281474976710656) = 2308094809027379 / 281474976710656"
  "fsub (3602879701896397 / 1125899906842624) 0 = 3602879701896397 / 1125899906842624"
  "fsub (2308094809027379 / 281474976710656) 0 = 2308094809027379 / 281474976710656"
  "fsub (3602879701896397 / 1125899906842624) 25 = - (6136154492292301 / 281474976710656)"
  "fsub (2308094809027379 / 281474976710656) 25 = - (4728779608739021 / 281474976710656)"
  "fmul (3602879701896397 / 1125899906842624) 5 = 16"
  "fdiv 101 5 = 5685794529555251 / 281474976710656"
proof -
  show a: "fl (3602879701896397 / 1125899906842624) = 3602879701896397 / 1125899906842624"
    using fl_near[of 1 "3602879701896397 / 1125899906842624" 7205759403792794] by simp
  show b: "fl (2308094809027379 / 281474976710656) = 2308094809027379 / 281474976710656"
    using fl_near[of 3 "2308094809027379 / 281474976710656" 4616189618054758] by simp
  show "fsub (3602879701896397 / 1125899906842624) 0 = 3602879701896397 / 1125899906842624"
    by (simp add: fsub_def a)
  show "fsub (2308094809027379 / 281474976710656) 0 = 2308094809027379 / 281474976710656"
    by (simp add: fsub_def b)
  show "fsub (3602879701896397 / 1125899906842624) 25 = - (6136154492292301 / 281474976710656)"
    unfolding fsub_def
    using fl_near[of 4 "3602879701896397 / 1125899906842624 - 25" "- 6136154492292301"] by simp
  show "fsub (2308094809027379 / 281474976710656) 25 = - (4728779608739021 / 281474976710656)"
    unfolding fsub_def
    using fl_near[of 4 "2308094809027379 / 281474976710656 - 25" "- 4728779608739021"] by simp
  show "fmul (3602879701896397 / 1125899906842624) 5 = 16"
    unfolding fmul_def
    using fl_near[of 4 "3602879701896397 / 1125899906842624 * 5" "2 ^ 52"] by simp
  show "fdiv 101 5 = 5685794529555251 / 281474976710656"
    unfolding fdiv_def
    using fl_near[of 4 "101 / 5" 5685794529555251] by simp
qed

lemmas slice_defs = sliceOrigin_def sliceS1_def sliceS2_def exampleComponent_def
  exampleLayout_def

lemma S1_priority: "priority sliceOrigin ''right'' sliceS1 = 27"
  unfolding priority_def Let_def
  by (simp add: S1_adj)
     (simp add: getRefCorners_right getPrimaryAxisDistance_def getSecondaryAxisDistance_def
       slice_defs coordinate_of_def corner_def direction_defs weight_defs slice_values
       slice_values2 slice_small Let_def)

lemma S2_priority: "priority sliceOrigin ''right'' sliceS2 = 5685794529555251 / 281474976710656"
  unfolding priority_def Let_def
  by (simp add: getRefCorners_right getIsAdjacentSlice_def getPrimaryAxisDistance_def
       getSecondaryAxisDistance_def slice_defs coordinate_of_def corner_def direction_defs
       weight_defs slice_values slice_values2 slice_small Let_def)

lemma slice_exact:
  "spec_overlap ''right'' sliceOrigin (layout sliceS1) = 5"
  "(20 / 100) * (spec_crossEnd ''right'' sliceOrigin - spec_crossStart ''right'' sliceOrigin) = 5"
  "spec_score ''right'' sliceOrigin (layout sliceS1) = (51 + fl (16 / 5)) / 5"
  "spec_score ''right'' sliceOrigin (layout sliceS2) = 101 / 5"
  by (simp_all add: spec_defs slice_defs slice_values)

text \<open>
  The claim as it is worded, in exact arithmetic, fails: the overlap of \<open>S1\<close> with the
  origin is exactly 20 percent of the origin's height, so \<open>S1\<close> would be an adjacent slice
  and rank before \<open>S2\<close>.  The bottom edge of \<open>S1\<close>, \<open>3.2 + 5\<close>, rounds down; the rounded
  overlap is below the threshold, \<open>S1\<close> is ranked as a diagonal candidate, and \<open>S2\<close> comes
  first.
\<close>

theorem sortSiblingsByPriority_rounding_counterexample:
  "spec_overlap ''right'' sliceOrigin (layout sliceS1)
     = (20 / 100) * (spec_crossEnd ''right'' sliceOrigin - spec_crossStart ''right'' sliceOrigin) \<and>
   \<not> getIsAdjacentSlice (getRefCorners ''right'' False sliceOrigin)
        (getRefCorners ''right'' True (layout sliceS1))
        (''right'' = DIRECTION_DOWN \<or> ''right'' = DIRECTION_UP) \<and>
   spec_score ''right'' sliceOrigin (layout sliceS1)
     < spec_score ''right'' sliceOrigin (layout sliceS2) \<and>
   map focusKey (sortSiblingsByPriority [sliceS1, sliceS2] sliceOrigin ''right'')
     = [''S2'', ''S1'']"
proof -
  have "map focusKey (sortSiblingsByPriority [sliceS1, sliceS2] sliceOrigin ''right'')
          = [''S2'', ''S1'']"
    by (simp add: sortSiblingsByPriority_def sortBy_def S1_priority S2_priority)
       (simp add: sliceS1_def sliceS2_def exampleComponent_def)
  moreover have "spec_score ''right'' sliceOrigin (layout sliceS1)
                   < spec_score ''right'' sliceOrigin (layout sliceS2)"
    by (simp add: slice_exact slice_values)
  ultimately show ?thesis using S1_adj slice_exact(1,2) by simp
qed

section \<open>Leaf resolution\<close>

subsection \<open>The store\<close>

lemma getComponent_Some:
  "getComponent k cs = Some c \<Longrightarrow> c \<in> set cs \<and> focusKey c = k"
  unfolding getComponent_def by (induction cs) (auto split: if_splits)

lemma getComponent_mem:
  "c \<in> set cs \<Longrightarrow> getComponent (focusKey c) cs \<noteq> None"
  unfolding getComponent_def by (induction cs) auto


lemma getComponent_distinct:
  "distinct (map focusKey cs) \<Longrightarrow> c \<in> set cs \<Longrightarrow> getComponent (focusKey c) cs = Some c"
  unfolding getComponent_def by (induction cs) (auto simp: image_iff)

lemma getComponent_map:
  assumes "\<And>c. focusKey (g c) = focusKey c"
  shows "getComponent k (map g cs) = map_option g (getComponent k cs)"
  unfolding getComponent_def using assms by (induction cs) auto

lemma getComponent_modifyComponent:
  assumes "\<And>c. focusKey (f c) = focusKey c"
  shows "getComponent k' (modifyComponent k f cs) =
         map_option (\<lambda>c. if focusKey c = k then f c else c) (getComponent k' cs)"
  unfolding modifyComponent_def by (rule getComponent_map) (simp add: assms)

lemma map_modifyComponent:
  assumes "\<And>c. g (f c) = g c"
  shows "map g (modifyComponent k f cs) = map g cs"
  unfolding modifyComponent_def using assms by (induction cs) auto

lemma focusKey_forgetLayout [simp]: "focusKey (forgetLayout c) = focusKey c"
  and parentFocusKey_forgetLayout [simp]: "parentFocusKey (forgetLayout c) = parentFocusKey c"
  and focusable_forgetLayout [simp]: "focusable (forgetLayout c) = focusable c"
  and lastFocusedChildKey_forgetLayout [simp]:
    "lastFocusedChildKey (forgetLayout c) = lastFocusedChildKey c"
  and preferredChildFocusKey_forgetLayout [simp]:
    "preferredChildFocusKey (forgetLayout c) = preferredChildFocusKey c"
  and saveLastFocusedChild_forgetLayout [simp]:
    "saveLastFocusedChild (forgetLayout c) = saveLastFocusedChild c"
  by (simp_all add: forgetLayout_def)

lemma forgetLayout_layout_update [simp]: "forgetLayout (c\<lparr>layout := l\<rparr>) = forgetLayout c"
  by (simp add: forgetLayout_def)

text \<open>What two stores that agree up to layouts have in common.\<close>

lemma same_focusKeys:
  assumes "map forgetLayout cs' = map forgetLayout cs"
  shows "map focusKey cs' = map focusKey cs"
proof -
  have "map focusKey (map forgetLayout cs') = map focusKey (map forgetLayout cs)"
    using assms by simp
  then show ?thesis by (simp add: comp_def)
qed

lemma same_getComponent:
  assumes "map forgetLayout cs' = map forgetLayout cs"
  shows "map_option forgetLayout (getComponent k cs') = map_option forgetLayout (getComponent k cs)"
proof -
  have "getComponent k (map forgetLayout cs') = getComponent k (map forgetLayout cs)"
    using assms by simp
  then show ?thesis by (simp add: getComponent_map)
qed

lemma same_getComponent_field:
  assumes "map forgetLayout cs' = map forgetLayout cs"
    and "\<And>c. fld (forgetLayout c) = fld c"
  shows "map_option fld (getComponent k cs') = map_option fld (getComponent k cs)"
proof -
  have "map_option fld (map_option forgetLayout (getComponent k cs'))
        = map_option fld (map_option forgetLayout (getComponent k cs))"
    using same_getComponent[OF assms(1), of k] by simp
  then show ?thesis by (simp add: option.map_comp comp_def assms(2))
qed


lemma same_childrenOf:
  assumes "map forgetLayout cs' = map forgetLayout cs"
  shows "map forgetLayout (childrenOf k cs') = map forgetLayout (childrenOf k cs)"
proof -
  have "\<And>xs. map forgetLayout (childrenOf k xs) = childrenOf k (map forgetLayout xs)"
    unfolding childrenOf_def by (simp add: filter_map comp_def)
  then show ?thesis using assms by simp
qed

lemma same_childrenOf_Nil:
  assumes "map forgetLayout cs' = map forgetLayout cs"
  shows "(childrenOf k cs' = []) = (childrenOf k cs = [])"
  using same_childrenOf[OF assms, of k] by (metis map_is_Nil_conv)

lemma same_participating:
  assumes "map forgetLayout (focusableComponents s') = map forgetLayout (focusableComponents s)"
  shows "isParticipatingFocusableComponent k s' = isParticipatingFocusableComponent k s"
proof -
  have "map_option focusable (getComponent k (focusableComponents s')) =
        map_option focusable (getComponent k (focusableComponents s))"
    by (rule same_getComponent_field[OF assms]) simp
  then show ?thesis
    unfolding isParticipatingFocusableComponent_def
    by (cases "getComponent k (focusableComponents s')";
        cases "getComponent k (focusableComponents s)") auto
qed

lemma same_ranked_imp:
  assumes same: "map forgetLayout cs' = map forgetLayout cs" and r: "ranked r cs"
  shows "ranked r cs'"
  unfolding ranked_def
proof (intro ballI conjI allI impI)
  fix c' assume "c' \<in> set cs'"
  then have "forgetLayout c' \<in> set (map forgetLayout cs)"
    using same by (metis image_eqI list.set_map)
  then obtain c where c: "c \<in> set cs" and eq: "forgetLayout c' = forgetLayout c" by auto
  have fld: "focusKey c' = focusKey c" "parentFocusKey c' = parentFocusKey c"
    "focusable c' = focusable c" "lastFocusedChildKey c' = lastFocusedChildKey c"
    "preferredChildFocusKey c' = preferredChildFocusKey c"
    using eq
    by (metis focusKey_forgetLayout, metis parentFocusKey_forgetLayout,
        metis focusable_forgetLayout, metis lastFocusedChildKey_forgetLayout,
        metis preferredChildFocusKey_forgetLayout)
  from r c have rc:
    "focusable c \<longrightarrow> r (focusKey c) < r (parentFocusKey c)"
    "\<And>l lc. lastFocusedChildKey c = Some l \<Longrightarrow> getComponent l cs = Some lc \<Longrightarrow> focusable lc
             \<Longrightarrow> r l < r (focusKey c)"
    "\<And>p pc. preferredChildFocusKey c = Some p \<Longrightarrow> getComponent p cs = Some pc \<Longrightarrow> focusable pc
             \<Longrightarrow> r p < r (focusKey c)"
    unfolding ranked_def by blast+
  { assume "focusable c'"
    with rc(1) fld show "r (focusKey c') < r (parentFocusKey c')" by simp }
  { fix l lc assume a: "lastFocusedChildKey c' = Some l \<and> getComponent l cs' = Some lc \<and> focusable lc"
    have "map_option focusable (getComponent l cs') = map_option focusable (getComponent l cs)"
      by (rule same_getComponent_field[OF same]) simp
    with a obtain lc0 where "getComponent l cs = Some lc0" "focusable lc0"
      by (cases "getComponent l cs") auto
    with rc(2)[of l lc0] a fld show "r l < r (focusKey c')" by simp }
  { fix p pc assume a: "preferredChildFocusKey c' = Some p \<and> getComponent p cs' = Some pc \<and> focusable pc"
    have "map_option focusable (getComponent p cs') = map_option focusable (getComponent p cs)"
      by (rule same_getComponent_field[OF same]) simp
    with a obtain pc0 where "getComponent p cs = Some pc0" "focusable pc0"
      by (cases "getComponent p cs") auto
    with rc(3)[of p pc0] a fld show "r p < r (focusKey c')" by simp }
qed

subsection \<open>Layout updates change layouts only\<close>

lemma layoutsOnly_refl [simp]: "layoutsOnly s s"
  by (simp add: layoutsOnly_def)

lemma layoutsOnly_trans: "layoutsOnly s s1 \<Longrightarrow> layoutsOnly s1 s2 \<Longrightarrow> layoutsOnly s s2"
  by (simp add: layoutsOnly_def)

lemma layoutsOnly_same:
  "layoutsOnly s s' \<Longrightarrow>
   map forgetLayout (focusableComponents s') = map forgetLayout (focusableComponents s)"
  by (simp add: layoutsOnly_def)

lemma layoutsOnly_updateLayout: "layoutsOnly s (updateLayout k s)"
  unfolding updateLayout_def layoutsOnly_def
  by (simp add: map_modifyComponent split: option.splits)

lemma layoutsOnly_fold_updateLayout:
  "layoutsOnly s (fold (\<lambda>c. updateLayout (focusKey c)) xs s)"
proof (induction xs arbitrary: s)
  case Nil
  show ?case by simp
next
  case (Cons c xs)
  have "layoutsOnly s (updateLayout (focusKey c) s)" by (rule layoutsOnly_updateLayout)
  moreover have "layoutsOnly (updateLayout (focusKey c) s)
                   (fold (\<lambda>c. updateLayout (focusKey c)) xs (updateLayout (focusKey c) s))"
    by (rule Cons.IH)
  ultimately show ?case by (simp add: layoutsOnly_trans)
qed

lemma children_after_updateLayout:
  "childrenOf t (focusableComponents s) \<noteq> [] \<Longrightarrow>
   getChildClosestToOrigin
     (childrenOf t (focusableComponents
        (fold (\<lambda>c. updateLayout (focusKey c)) (childrenOf t (focusableComponents s)) s))) \<noteq> None"
proof -
  assume ne: "childrenOf t (focusableComponents s) \<noteq> []"
  let ?s' = "fold (\<lambda>c. updateLayout (focusKey c)) (childrenOf t (focusableComponents s)) s"
  have "layoutsOnly s ?s'" by (rule layoutsOnly_fold_updateLayout)
  from same_childrenOf_Nil[OF layoutsOnly_same[OF this], of t] ne
  have "childrenOf t (focusableComponents ?s') \<noteq> []" by simp
  then show ?thesis
    unfolding getChildClosestToOrigin_def by (simp add: first_sortBy_None)
qed

subsection \<open>One step of leaf resolution\<close>

text \<open>The body of \<open>getNextFocusKey\<close>, for any function \<open>f\<close> in the place of the recursive
  call, in terms of \<open>descendTarget\<close>.\<close>

lemma getNextFocusKey_body:
  "(case getComponent t (focusableComponents s) of
        None \<Rightarrow> Some (t, s)
      | Some targetComponent \<Rightarrow>
          (let children = filter (\<lambda>c. parentFocusKey c = t \<and> focusable c)
                            (focusableComponents s)
           in if length children > 0 then
                (case (case lastFocusedChildKey targetComponent of
                         None \<Rightarrow> None
                       | Some l \<Rightarrow> if l \<noteq> [] \<and> saveLastFocusedChild targetComponent \<and>
                                      isParticipatingFocusableComponent l s
                                   then Some l else None) of
                   Some l \<Rightarrow> f l s
                 | None \<Rightarrow>
                    (case (case preferredChildFocusKey targetComponent of
                             None \<Rightarrow> None
                           | Some p \<Rightarrow> if p \<noteq> [] \<and> isParticipatingFocusableComponent p s
                                       then Some p else None) of
                       Some p \<Rightarrow> f p s
                     | None \<Rightarrow>
                        (let s' = fold (\<lambda>c. updateLayout (focusKey c)) children s;
                             children' =
                               filter (\<lambda>c. parentFocusKey c = t \<and> focusable c)
                                 (focusableComponents s')
                         in case getChildClosestToOrigin children' of
                              None \<Rightarrow> None
                            | Some child \<Rightarrow> f (focusKey child) s')))
              else Some (t, s)))
   = (case getComponent t (focusableComponents s) of
        None \<Rightarrow> Some (t, s)
      | Some tc \<Rightarrow>
          if childrenOf t (focusableComponents s) = [] then Some (t, s)
          else (case descendTarget t tc s of None \<Rightarrow> None | Some (t1, s1) \<Rightarrow> f t1 s1))"
  by (simp add: childrenOf_def descendTarget_def lastFocusedChoice_def preferredChoice_def Let_def
           split: option.splits)

lemma getNextFocusKey_unfold:
  "getNextFocusKey t s =
     (case getComponent t (focusableComponents s) of
        None \<Rightarrow> Some (t, s)
      | Some tc \<Rightarrow>
          if childrenOf t (focusableComponents s) = [] then Some (t, s)
          else (case descendTarget t tc s of
                  None \<Rightarrow> None
                | Some (t1, s1) \<Rightarrow> getNextFocusKey t1 s1))"
  by (subst getNextFocusKey.simps) (rule getNextFocusKey_body)

lemma getNextFocusKey_stop:
  assumes "getComponent t (focusableComponents s) = None \<or> childrenOf t (focusableComponents s) = []"
  shows "getNextFocusKey t s = Some (t, s)"
  using assms by (subst getNextFocusKey_unfold) (auto split: option.splits)

lemma getNextFocusKey_descend:
  assumes "getComponent t (focusableComponents s) = Some tc"
    and "childrenOf t (focusableComponents s) \<noteq> []"
  shows "getNextFocusKey t s =
           (case descendTarget t tc s of None \<Rightarrow> None | Some (t1, s1) \<Rightarrow> getNextFocusKey t1 s1)"
  using assms by (subst getNextFocusKey_unfold) simp

lemma descendTarget_Some:
  assumes "childrenOf t (focusableComponents s) \<noteq> []"
  shows "descendTarget t tc s \<noteq> None"
  using children_after_updateLayout[OF assms]
  by (auto simp: descendTarget_def Let_def split: option.splits)

lemma descendTarget_cases:
  assumes dt: "descendTarget t tc s = Some (t1, s1)"
  obtains
    (last) "lastFocusedChoice tc s = Some t1" "s1 = s"
  | (pref) "lastFocusedChoice tc s = None" "preferredChoice tc s = Some t1" "s1 = s"
  | (closest) child where
      "lastFocusedChoice tc s = None" "preferredChoice tc s = None"
      "getChildClosestToOrigin
         (childrenOf t (focusableComponents
            (fold (\<lambda>c. updateLayout (focusKey c)) (childrenOf t (focusableComponents s)) s)))
       = Some child"
      "t1 = focusKey child"
      "s1 = fold (\<lambda>c. updateLayout (focusKey c)) (childrenOf t (focusableComponents s)) s"
proof (cases "lastFocusedChoice tc s")
  case (Some l)
  with dt have "t1 = l" "s1 = s" by (simp_all add: descendTarget_def)
  with Some show ?thesis by (intro last) simp_all
next
  case lastNone: None
  show ?thesis
  proof (cases "preferredChoice tc s")
    case (Some p)
    with dt lastNone have "t1 = p" "s1 = s" by (simp_all add: descendTarget_def)
    with Some lastNone show ?thesis by (intro pref) simp_all
  next
    case prefNone: None
    let ?s' = "fold (\<lambda>c. updateLayout (focusKey c)) (childrenOf t (focusableComponents s)) s"
    from dt lastNone prefNone have
      "(case getChildClosestToOrigin (childrenOf t (focusableComponents ?s')) of
          None \<Rightarrow> None | Some child \<Rightarrow> Some (focusKey child, ?s')) = Some (t1, s1)"
      by (simp add: descendTarget_def Let_def)
    then obtain child where
      "getChildClosestToOrigin (childrenOf t (focusableComponents ?s')) = Some child"
      "t1 = focusKey child" "s1 = ?s'"
      by (cases "getChildClosestToOrigin (childrenOf t (focusableComponents ?s'))") auto
    with lastNone prefNone show ?thesis by (intro closest) simp_all
  qed
qed

lemma descendTarget_props:
  assumes dt: "descendTarget t tc s = Some (t1, s1)"
  shows "layoutsOnly s s1"
    and "getComponent t1 (focusableComponents s1) \<noteq> None"
    and "distinct (map focusKey (focusableComponents s)) \<Longrightarrow> isParticipatingFocusableComponent t1 s1"
proof -
  let ?s' = "fold (\<lambda>c. updateLayout (focusKey c)) (childrenOf t (focusableComponents s)) s"
  have lo: "layoutsOnly s ?s'" by (rule layoutsOnly_fold_updateLayout)
  from dt have "layoutsOnly s s1 \<and> getComponent t1 (focusableComponents s1) \<noteq> None \<and>
    (distinct (map focusKey (focusableComponents s)) \<longrightarrow> isParticipatingFocusableComponent t1 s1)"
  proof (cases rule: descendTarget_cases)
    case last
    then have "isParticipatingFocusableComponent t1 s"
      by (auto simp: lastFocusedChoice_def split: option.splits if_splits)
    with last show ?thesis
      by (auto simp: isParticipatingFocusableComponent_def split: option.splits)
  next
    case pref
    then have "isParticipatingFocusableComponent t1 s"
      by (auto simp: preferredChoice_def split: option.splits if_splits)
    with pref show ?thesis
      by (auto simp: isParticipatingFocusableComponent_def split: option.splits)
  next
    case (closest child)
    from closest(3) have "child \<in> set (childrenOf t (focusableComponents ?s'))"
      unfolding getChildClosestToOrigin_def by (rule first_sortBy_mem)
    then have mem: "child \<in> set (focusableComponents ?s')" and foc: "focusable child"
      by (auto simp: childrenOf_def)
    have reg: "getComponent (focusKey child) (focusableComponents ?s') \<noteq> None"
      by (rule getComponent_mem[OF mem])
    have part: "isParticipatingFocusableComponent (focusKey child) ?s'"
      if "distinct (map focusKey (focusableComponents s))"
    proof -
      from same_focusKeys[OF layoutsOnly_same[OF lo]] that
      have "distinct (map focusKey (focusableComponents ?s'))" by simp
      from getComponent_distinct[OF this mem] foc show ?thesis
        by (simp add: isParticipatingFocusableComponent_def)
    qed
    from lo reg part closest show ?thesis by simp
  qed
  then show "layoutsOnly s s1"
    and "getComponent t1 (focusableComponents s1) \<noteq> None"
    and "distinct (map focusKey (focusableComponents s)) \<Longrightarrow> isParticipatingFocusableComponent t1 s1"
    by auto
qed

lemma descendTarget_ranked:
  assumes dt: "descendTarget t tc s = Some (t1, s1)"
    and tc: "getComponent t (focusableComponents s) = Some tc"
    and r: "ranked r (focusableComponents s)"
  shows "r t1 < r t"
proof -
  let ?s' = "fold (\<lambda>c. updateLayout (focusKey c)) (childrenOf t (focusableComponents s)) s"
  have lo: "layoutsOnly s ?s'" by (rule layoutsOnly_fold_updateLayout)
  from getComponent_Some[OF tc] have tcm: "tc \<in> set (focusableComponents s)" and tck: "focusKey tc = t"
    by auto
  from r tcm have rc:
    "\<And>l lc. lastFocusedChildKey tc = Some l \<Longrightarrow> getComponent l (focusableComponents s) = Some lc
        \<Longrightarrow> focusable lc \<Longrightarrow> r l < r (focusKey tc)"
    "\<And>p pc. preferredChildFocusKey tc = Some p \<Longrightarrow> getComponent p (focusableComponents s) = Some pc
        \<Longrightarrow> focusable pc \<Longrightarrow> r p < r (focusKey tc)"
    unfolding ranked_def by blast+
  from dt show ?thesis
  proof (cases rule: descendTarget_cases)
    case last
    then obtain lc where "lastFocusedChildKey tc = Some t1"
      "getComponent t1 (focusableComponents s) = Some lc" "focusable lc"
      by (auto simp: lastFocusedChoice_def isParticipatingFocusableComponent_def
               split: option.splits if_splits)
    from rc(1)[OF this] tck show ?thesis by simp
  next
    case pref
    then obtain pc where "preferredChildFocusKey tc = Some t1"
      "getComponent t1 (focusableComponents s) = Some pc" "focusable pc"
      by (auto simp: preferredChoice_def isParticipatingFocusableComponent_def
               split: option.splits if_splits)
    from rc(2)[OF this] tck show ?thesis by simp
  next
    case (closest child)
    from closest(3) have "child \<in> set (childrenOf t (focusableComponents ?s'))"
      unfolding getChildClosestToOrigin_def by (rule first_sortBy_mem)
    then have mem: "child \<in> set (focusableComponents ?s')" and foc: "focusable child"
      and par: "parentFocusKey child = t"
      by (auto simp: childrenOf_def)
    have "ranked r (focusableComponents ?s')"
      by (rule same_ranked_imp[OF layoutsOnly_same[OF lo] r])
    with mem foc have "r (focusKey child) < r (parentFocusKey child)"
      unfolding ranked_def by blast
    with par closest show ?thesis by simp
  qed
qed

subsection \<open>Results of leaf resolution\<close>

lemma getNextFocusKey_terminates:
  assumes "ranked r (focusableComponents s)"
  shows "\<exists>y. getNextFocusKey t s = Some y"
  using assms
proof (induction "r t" arbitrary: t s rule: less_induct)
  case less
  show ?case
  proof (cases "getComponent t (focusableComponents s) = None
                \<or> childrenOf t (focusableComponents s) = []")
    case True
    from getNextFocusKey_stop[OF this] show ?thesis by simp
  next
    case False
    then obtain tc where tc: "getComponent t (focusableComponents s) = Some tc"
      and ne: "childrenOf t (focusableComponents s) \<noteq> []" by auto
    have "descendTarget t tc s \<noteq> None" by (rule descendTarget_Some[OF ne])
    then obtain t1 s1 where dt: "descendTarget t tc s = Some (t1, s1)"
      by (cases "descendTarget t tc s") auto
    have "r t1 < r t" by (rule descendTarget_ranked[OF dt tc less.prems])
    moreover have "ranked r (focusableComponents s1)"
      by (rule same_ranked_imp[OF layoutsOnly_same[OF descendTarget_props(1)[OF dt]] less.prems])
    ultimately have "\<exists>y. getNextFocusKey t1 s1 = Some y" by (rule less.hyps)
    then show ?thesis by (simp add: getNextFocusKey_descend[OF tc ne] dt)
  qed
qed






lemma ranked_of_child_keys:
  assumes "\<forall>c \<in> set cs. r (focusKey c) < r (parentFocusKey c)"
    and "\<forall>c \<in> set cs. \<forall>l lc. lastFocusedChildKey c = Some l \<and> getComponent l cs = Some lc
           \<longrightarrow> parentFocusKey lc = focusKey c"
    and "\<forall>c \<in> set cs. \<forall>p pc. preferredChildFocusKey c = Some p \<and> getComponent p cs = Some pc
           \<longrightarrow> parentFocusKey pc = focusKey c"
  shows "ranked r cs"
  unfolding ranked_def
proof (intro ballI conjI allI impI)
  fix c assume c: "c \<in> set cs"
  with assms(1) show "r (focusKey c) < r (parentFocusKey c)" by simp
next
  fix c l lc
  assume c: "c \<in> set cs"
    and l: "lastFocusedChildKey c = Some l \<and> getComponent l cs = Some lc \<and> focusable lc"
  then have "lc \<in> set cs" "focusKey lc = l" using getComponent_Some by blast+
  moreover from assms(2) c l have "parentFocusKey lc = focusKey c" by blast
  ultimately show "r l < r (focusKey c)" using assms(1) by fastforce
next
  fix c p pc
  assume c: "c \<in> set cs"
    and p: "preferredChildFocusKey c = Some p \<and> getComponent p cs = Some pc \<and> focusable pc"
  then have "pc \<in> set cs" "focusKey pc = p" using getComponent_Some by blast+
  moreover from assms(3) c p have "parentFocusKey pc = focusKey c" by blast
  ultimately show "r p < r (focusKey c)" using assms(1) by fastforce
qed


lemmas example_defs = exampleService_def exampleComponent_def exampleLayout_def







section \<open>Directional navigation\<close>

lemmas setFocus_defs = setFocus_def setCurrentFocusedKey_def
  propertyKey_def saveLastFocusedChildKey_def fire_def getNodeLayoutByFocusKey_def
  updateLayout_def modifyComponent_def getComponent_def updateParentsHasFocusedChild_def
  difference_def updateParentsLastFocusedChild_def Let_def


lemma smartNavigate_stops_at_boundary:
  "getComponent k (focusableComponents s) = Some fromComponent \<Longrightarrow>
   isFocusBoundary fromComponent \<Longrightarrow> smartNavigate k direction s = Some s"
  by (subst smartNavigate.simps) simp

lemma smartNavigate_select:
  assumes "getComponent k (focusableComponents s) = Some fromComponent"
    and "\<not> isFocusBoundary fromComponent"
    and "first (sortSiblingsByPriority
                  (filter (isNodeFocusable direction fromComponent) (focusableComponents s))
                  (layout fromComponent) direction) = Some nextComponent"
  shows "smartNavigate k direction s = setFocus (focusKey nextComponent) s"
  using assms by (subst smartNavigate.simps) (simp add: Let_def)

lemma smartNavigate_climb:
  assumes "getComponent k (focusableComponents s) = Some fromComponent"
    and "\<not> isFocusBoundary fromComponent"
    and "first (sortSiblingsByPriority
                  (filter (isNodeFocusable direction fromComponent) (focusableComponents s))
                  (layout fromComponent) direction) = None"
  shows "smartNavigate k direction s =
         smartNavigate (parentFocusKey fromComponent) direction
           (saveLastFocusedChildKey
              (getComponent (parentFocusKey fromComponent) (focusableComponents s))
              (Some (focusKey fromComponent)) s)"
  using assms by (subst smartNavigate.simps) (simp add: Let_def)

lemma climbsTo_smartNavigate:
  "climbsTo direction k s k' s' \<Longrightarrow> smartNavigate k direction s = smartNavigate k' direction s'"
proof (induction rule: climbsTo.induct)
  case (climbsTo_here direction k s)
  show ?case by simp
next
  case (climbsTo_parent k s fromComponent direction k' s')
  from smartNavigate_climb[OF climbsTo_parent(1,2,3)] climbsTo_parent.IH
  show ?case by simp
qed

lemma isNodeFocusable_holds:
  assumes "isNodeFocusable dir from to"
  shows "focusable to \<and> focusKey to \<noteq> focusKey from \<and> parentFocusKey to = parentFocusKey from \<and>
         dir \<in> {''left'', ''right'', ''down'', ''up''} \<and>
         (dir = ''left'' \<longrightarrow> fadd (left (layout to)) (width (layout to)) \<le> left (layout from)) \<and>
         (dir = ''right'' \<longrightarrow> fadd (left (layout from)) (width (layout from)) \<le> left (layout to)) \<and>
         (dir = ''down'' \<longrightarrow> fadd (top (layout from)) (height (layout from)) \<le> top (layout to)) \<and>
         (dir = ''up'' \<longrightarrow> fadd (top (layout to)) (height (layout to)) \<le> top (layout from))"
proof -
  from assms have basic: "focusable to" "focusKey from \<noteq> focusKey to"
    "parentFocusKey from = parentFocusKey to"
    unfolding isNodeFocusable_def by (auto split: if_splits)
  from assms basic have edge:
    "(if dir = ''left'' then left (layout from) \<ge> fadd (left (layout to)) (width (layout to))
      else if dir = ''right'' then fadd (left (layout from)) (width (layout from)) \<le> left (layout to)
      else if dir = ''down'' then top (layout to) \<ge> fadd (top (layout from)) (height (layout from))
      else if dir = ''up'' then top (layout from) \<ge> fadd (top (layout to)) (height (layout to))
      else False)"
    unfolding isNodeFocusable_def direction_defs Let_def by simp
  then have "dir \<in> {''left'', ''right'', ''down'', ''up''}"
    by (auto split: if_splits)
  moreover from edge have
    "dir = ''left'' \<longrightarrow> fadd (left (layout to)) (width (layout to)) \<le> left (layout from)"
    "dir = ''right'' \<longrightarrow> fadd (left (layout from)) (width (layout from)) \<le> left (layout to)"
    "dir = ''down'' \<longrightarrow> fadd (top (layout from)) (height (layout from)) \<le> top (layout to)"
    "dir = ''up'' \<longrightarrow> fadd (top (layout to)) (height (layout to)) \<le> top (layout from)"
    by (simp_all split: if_splits)
  ultimately show ?thesis using basic by simp
qed

text \<open>
  Claim C2, amended.  Whenever \<open>smartNavigate\<close>, started on any key in any state, hands a
  component to \<open>setFocus\<close>, the search stands at the origin or, after climbing, at an
  ancestor of it; the component is registered and focusable, is not the node the search
  stands at, has the same parent key as that node, and passes the facing-edge test of the
  direction against that node's layout, with equality allowed and the far edge a rounded
  sum; the direction is one of the four.
\<close>

theorem smartNavigate_selection:
  assumes "climbsTo direction k s k' s'"
    and "getComponent k' (focusableComponents s') = Some fromComponent"
    and "\<not> isFocusBoundary fromComponent"
    and "first (sortSiblingsByPriority
                  (filter (isNodeFocusable direction fromComponent) (focusableComponents s'))
                  (layout fromComponent) direction) = Some nextComponent"
  shows "smartNavigate k direction s = setFocus (focusKey nextComponent) s' \<and>
         nextComponent \<in> set (focusableComponents s') \<and>
         focusable nextComponent \<and>
         focusKey nextComponent \<noteq> focusKey fromComponent \<and>
         parentFocusKey nextComponent = parentFocusKey fromComponent \<and>
         direction \<in> {''left'', ''right'', ''down'', ''up''} \<and>
         (direction = ''left'' \<longrightarrow>
            fadd (left (layout nextComponent)) (width (layout nextComponent))
              \<le> left (layout fromComponent)) \<and>
         (direction = ''right'' \<longrightarrow>
            fadd (left (layout fromComponent)) (width (layout fromComponent))
              \<le> left (layout nextComponent)) \<and>
         (direction = ''down'' \<longrightarrow>
            fadd (top (layout fromComponent)) (height (layout fromComponent))
              \<le> top (layout nextComponent)) \<and>
         (direction = ''up'' \<longrightarrow>
            fadd (top (layout nextComponent)) (height (layout nextComponent))
              \<le> top (layout fromComponent))"
proof -
  have "smartNavigate k direction s = smartNavigate k' direction s'"
    by (rule climbsTo_smartNavigate[OF assms(1)])
  also have "\<dots> = setFocus (focusKey nextComponent) s'"
    by (rule smartNavigate_select[OF assms(2,3,4)])
  finally have sel: "smartNavigate k direction s = setFocus (focusKey nextComponent) s'" .
  from assms(4) have
    "nextComponent \<in> set (filter (isNodeFocusable direction fromComponent) (focusableComponents s'))"
    unfolding sortSiblingsByPriority_def by (rule first_sortBy_mem)
  then have mem: "nextComponent \<in> set (focusableComponents s')"
    and ok: "isNodeFocusable direction fromComponent nextComponent" by auto
  from sel mem isNodeFocusable_holds[OF ok] show ?thesis by simp
qed

lemma nestedService_components:
  "focusableComponents nestedService =
     [exampleComponent ''R'' ''SN:ROOT'' (exampleLayout 0 0 30 10),
      exampleComponent ''P'' ''R'' (exampleLayout 0 0 10 10),
      exampleComponent ''Q'' ''R'' (exampleLayout 20 0 10 10),
      exampleComponent ''A'' ''P'' (exampleLayout 0 0 10 10)]"
  by (simp add: nestedService_def exampleService_def)

lemma nestedClimbed_components:
  "focusableComponents nestedClimbed =
     [exampleComponent ''R'' ''SN:ROOT'' (exampleLayout 0 0 30 10),
      (exampleComponent ''P'' ''R'' (exampleLayout 0 0 10 10))\<lparr>lastFocusedChildKey := Some ''A''\<rparr>,
      exampleComponent ''Q'' ''R'' (exampleLayout 20 0 10 10),
      exampleComponent ''A'' ''P'' (exampleLayout 0 0 10 10)]"
  by (simp add: nestedClimbed_def exampleService_def)

lemma nestedService_A:
  "getComponent ''A'' (focusableComponents nestedService)
     = Some (exampleComponent ''A'' ''P'' (exampleLayout 0 0 10 10))"
  by (simp add: nestedService_components getComponent_def exampleComponent_def)

lemma nestedService_A_alone:
  "filter (isNodeFocusable ''right'' (exampleComponent ''A'' ''P'' (exampleLayout 0 0 10 10)))
     (focusableComponents nestedService) = []"
  by (simp add: nestedService_components isNodeFocusable_def exampleComponent_def)

lemma nestedService_record_A:
  "saveLastFocusedChildKey (getComponent ''P'' (focusableComponents nestedService)) (Some ''A'')
     nestedService = nestedClimbed"
  by (simp add: saveLastFocusedChildKey_def getComponent_def modifyComponent_def
      nestedService_def nestedClimbed_def exampleService_def exampleComponent_def)

lemma nestedService_climbs: "climbsTo ''right'' ''A'' nestedService ''P'' nestedClimbed"
proof (rule climbsTo_parent[OF nestedService_A])
  show "\<not> isFocusBoundary (exampleComponent ''A'' ''P'' (exampleLayout 0 0 10 10))"
    by (simp add: exampleComponent_def)
  show "first (sortSiblingsByPriority
          (filter (isNodeFocusable ''right'' (exampleComponent ''A'' ''P'' (exampleLayout 0 0 10 10)))
             (focusableComponents nestedService))
          (layout (exampleComponent ''A'' ''P'' (exampleLayout 0 0 10 10))) ''right'') = None"
    unfolding nestedService_A_alone
    by (simp add: sortSiblingsByPriority_def first_sortBy_None)
  have "parentFocusKey (exampleComponent ''A'' ''P'' (exampleLayout 0 0 10 10)) = ''P''"
    "focusKey (exampleComponent ''A'' ''P'' (exampleLayout 0 0 10 10)) = ''A''"
    by (simp_all add: exampleComponent_def)
  then show "climbsTo ''right''
     (parentFocusKey (exampleComponent ''A'' ''P'' (exampleLayout 0 0 10 10)))
     (saveLastFocusedChildKey
        (getComponent (parentFocusKey (exampleComponent ''A'' ''P'' (exampleLayout 0 0 10 10)))
           (focusableComponents nestedService))
        (Some (focusKey (exampleComponent ''A'' ''P'' (exampleLayout 0 0 10 10)))) nestedService)
     ''P'' nestedClimbed"
    by (simp add: nestedService_record_A climbsTo_here)
qed

lemma nestedClimbed_P:
  "getComponent ''P'' (focusableComponents nestedClimbed)
     = Some ((exampleComponent ''P'' ''R'' (exampleLayout 0 0 10 10))
               \<lparr>lastFocusedChildKey := Some ''A''\<rparr>)"
  by (simp add: nestedClimbed_components getComponent_def exampleComponent_def)

lemma nestedClimbed_siblings:
  "filter (isNodeFocusable ''right''
             ((exampleComponent ''P'' ''R'' (exampleLayout 0 0 10 10))
                \<lparr>lastFocusedChildKey := Some ''A''\<rparr>))
     (focusableComponents nestedClimbed)
   = [exampleComponent ''Q'' ''R'' (exampleLayout 20 0 10 10)]"
  by (simp add: nestedClimbed_components isNodeFocusable_def exampleComponent_def
      exampleLayout_def direction_defs fadd_def)

theorem smartNavigate_selection_witness:
  "climbsTo ''right'' ''A'' nestedService ''P'' nestedClimbed \<and>
   smartNavigate ''A'' ''right'' nestedService = setFocus ''Q'' nestedClimbed \<and>
   fadd (left (exampleLayout 0 0 10 10)) (width (exampleLayout 0 0 10 10))
     \<le> left (exampleLayout 20 0 10 10)"
proof -
  let ?P = "(exampleComponent ''P'' ''R'' (exampleLayout 0 0 10 10))
              \<lparr>lastFocusedChildKey := Some ''A''\<rparr>"
  let ?Q = "exampleComponent ''Q'' ''R'' (exampleLayout 20 0 10 10)"
  have nb: "\<not> isFocusBoundary ?P" by (simp add: exampleComponent_def)
  have fst: "first (sortSiblingsByPriority
               (filter (isNodeFocusable ''right'' ?P) (focusableComponents nestedClimbed))
               (layout ?P) ''right'') = Some ?Q"
    unfolding nestedClimbed_siblings
    by (simp add: sortSiblingsByPriority_def sortBy_def first_def)
  from smartNavigate_selection[OF nestedService_climbs nestedClimbed_P nb fst]
  have "smartNavigate ''A'' ''right'' nestedService = setFocus (focusKey ?Q) nestedClimbed"
    and "fadd (left (layout ?P)) (width (layout ?P)) \<le> left (layout ?Q)"
    by simp_all
  then show ?thesis using nestedService_climbs by (simp add: exampleComponent_def)
qed

text \<open>
  The claim as it is worded, about the origin, fails after a climb.  From the item \<open>A\<close> of
  the row \<open>P\<close> the search finds no sibling, climbs to \<open>P\<close> and selects \<open>Q\<close>: the parent of
  \<open>Q\<close> is not the parent of \<open>A\<close>, and the right edge of \<open>A\<close> lies beyond the left edge of
  \<open>Q\<close>.
\<close>

lemma carousel_climb:
  "smartNavigate ''A'' ''right'' carouselService
     = smartNavigate ''P'' ''right''
         (saveLastFocusedChildKey (getComponent ''P'' (focusableComponents carouselService))
            (Some ''A'') carouselService)"
  by (subst smartNavigate.simps)
     (simp add: carouselService_def example_defs getComponent_def isNodeFocusable_def
        direction_defs sortSiblingsByPriority_def sortBy_def first_def fadd_def Let_def)

lemma carousel_select:
  "smartNavigate ''P'' ''right''
         (saveLastFocusedChildKey (getComponent ''P'' (focusableComponents carouselService))
            (Some ''A'') carouselService)
   = setFocus ''Q''
         (saveLastFocusedChildKey (getComponent ''P'' (focusableComponents carouselService))
            (Some ''A'') carouselService)"
  by (subst smartNavigate.simps)
     (simp add: carouselService_def example_defs getComponent_def isNodeFocusable_def
        direction_defs sortSiblingsByPriority_def sortBy_def first_def fadd_def Let_def
        saveLastFocusedChildKey_def modifyComponent_def)

lemma carousel_focus:
  "map_option currentFocusKey
     (setFocus ''Q''
         (saveLastFocusedChildKey (getComponent ''P'' (focusableComponents carouselService))
            (Some ''A'') carouselService)) = Some (Some ''Q'')"
  by (simp add: setFocus_defs getNextFocusKey.simps collectParents.simps
      climbLastFocusedChild.simps carouselService_def example_defs updateHasFocusedChild_def
      onIntermediateNodeBecameFocused_def onIntermediateNodeBecameBlurred_def
      isParticipatingFocusableComponent_def)

theorem smartNavigate_climbed_selection_counterexample:
  "map_option currentFocusKey (smartNavigate ''A'' ''right'' carouselService) = Some (Some ''Q'') \<and>
   map_option (\<lambda>c. (parentFocusKey c, left (layout c), width (layout c)))
     (getComponent ''A'' (focusableComponents carouselService)) = Some (''P'', 500, 10) \<and>
   map_option (\<lambda>c. (parentFocusKey c, left (layout c), width (layout c)))
     (getComponent ''Q'' (focusableComponents carouselService)) = Some (''R'', 100, 100) \<and>
   \<not> fadd 500 10 \<le> 100"
proof -
  have "map_option currentFocusKey (smartNavigate ''A'' ''right'' carouselService)
          = Some (Some ''Q'')"
    by (simp only: carousel_climb carousel_select carousel_focus)
  then show ?thesis
    by (simp add: carouselService_def example_defs getComponent_def fadd_def)
qed

text \<open>The far edge is a rounded sum: with the origin at the double \<open>0.1\<close>, wide the double
  \<open>0.4\<close>, a candidate at \<open>0.5\<close> passes the test to the right, although the exact sum of
  the two doubles exceeds \<open>0.5\<close>.\<close>

lemma isNodeFocusable_rounded_edge:
  "isNodeFocusable ''right''
     (exampleComponent ''A'' ''P'' (exampleLayout (fl (1 / 10)) 0 (fl (4 / 10)) 10))
     (exampleComponent ''B'' ''P'' (exampleLayout (1 / 2) 0 10 10)) \<and>
   \<not> fl (1 / 10) + fl (4 / 10) \<le> 1 / 2"
proof -
  have a: "fl (1 / 10) = 3602879701896397 / 36028797018963968"
    using fl_near[of "-4" "1 / 10" 7205759403792794] by (simp add: power_int_minus)
  have b: "fl (2 / 5) = 3602879701896397 / 9007199254740992"
    using fl_near[of "-2" "2 / 5" 7205759403792794] by (simp add: power_int_minus)
  have c: "fadd (3602879701896397 / 36028797018963968) (3602879701896397 / 9007199254740992)
             = 1 / 2"
    unfolding fadd_def
    using fl_near[of "-1" "3602879701896397 / 36028797018963968
                            + 3602879701896397 / 9007199254740992" "2 ^ 52"]
    by (simp add: power_int_minus)
  show ?thesis
    by (simp add: isNodeFocusable_def example_defs direction_defs a b c)
qed

text \<open>
  Claim C10.  When the component at the origin key is a focus boundary, \<open>smartNavigate\<close>
  returns at once with the state as it was: the focus key, every \<open>lastFocusedChildKey\<close>,
  the trace of callbacks and all the rest are unchanged, whatever the direction and
  whatever siblings there are.
\<close>

theorem smartNavigate_at_boundary:
  assumes "getComponent k (focusableComponents s) = Some fromComponent"
    and "isFocusBoundary fromComponent"
  shows "smartNavigate k direction s = Some s"
  using assms by (rule smartNavigate_stops_at_boundary)

theorem smartNavigate_at_boundary_witness:
  "getComponent ''P'' (focusableComponents boundaryService)
     = Some ((exampleComponent ''P'' ''SN:ROOT'' (exampleLayout 0 0 10 10))
               \<lparr>isFocusBoundary := True\<rparr>) \<and>
   isFocusBoundary ((exampleComponent ''P'' ''SN:ROOT'' (exampleLayout 0 0 10 10))
                      \<lparr>isFocusBoundary := True\<rparr>) \<and>
   smartNavigate ''P'' ''down'' boundaryService = Some boundaryService"
proof -
  have g: "getComponent ''P'' (focusableComponents boundaryService)
     = Some ((exampleComponent ''P'' ''SN:ROOT'' (exampleLayout 0 0 10 10))
               \<lparr>isFocusBoundary := True\<rparr>)"
    by (simp add: boundaryService_def exampleService_def exampleComponent_def getComponent_def)
  have b: "isFocusBoundary ((exampleComponent ''P'' ''SN:ROOT'' (exampleLayout 0 0 10 10))
                      \<lparr>isFocusBoundary := True\<rparr>)"
    by simp
  from smartNavigate_at_boundary[OF g b, of "''down''"] g b show ?thesis by simp
qed









section \<open>The layout cache\<close>

lemma updateLayout_unregistered:
  "getComponent k (focusableComponents s) = None \<Longrightarrow> updateLayout k s = s"
  by (simp add: updateLayout_def)

lemma updateLayout_flagged:
  "getComponent k (focusableComponents s) = Some c \<Longrightarrow> layoutUpdated c \<Longrightarrow> updateLayout k s = s"
  by (simp add: updateLayout_def)

lemma updateLayout_measures:
  assumes "getComponent k (focusableComponents s) = Some c" and "\<not> layoutUpdated c"
  shows "measured (updateLayout k s) = measured s @ [node c]"
    and "getComponent k (focusableComponents (updateLayout k s))
           = Some (c\<lparr>layout := (measureLayout s (node c))\<lparr>layout_node := node c\<rparr>\<rparr>)"
    and "map layoutUpdated (focusableComponents (updateLayout k s))
           = map layoutUpdated (focusableComponents s)"
    and "measureLayout (updateLayout k s) = measureLayout s"
proof -
  from getComponent_Some[OF assms(1)] have key: "focusKey c = k" by simp
  show "measured (updateLayout k s) = measured s @ [node c]"
    using assms by (simp add: updateLayout_def)
  show "getComponent k (focusableComponents (updateLayout k s))
           = Some (c\<lparr>layout := (measureLayout s (node c))\<lparr>layout_node := node c\<rparr>\<rparr>)"
    using assms key by (simp add: updateLayout_def getComponent_modifyComponent)
  show "map layoutUpdated (focusableComponents (updateLayout k s))
           = map layoutUpdated (focusableComponents s)"
    using assms by (simp add: updateLayout_def map_modifyComponent)
  show "measureLayout (updateLayout k s) = measureLayout s"
    using assms by (simp add: updateLayout_def)
qed

text \<open>
  Claim C9, amended.  \<open>updateLayout\<close> leaves the state as it is when the key is not
  registered or the component's \<open>layoutUpdated\<close> flag is set.  Otherwise it asks the
  external layout provider once, stores the answer together with the node handle as the
  component's layout, and leaves every \<open>layoutUpdated\<close> flag as it was; so a second call
  for the same key measures the node a second time.
\<close>

theorem updateLayout_effect:
  "(getComponent k (focusableComponents s) = None \<longrightarrow> updateLayout k s = s) \<and>
   (\<forall>c. getComponent k (focusableComponents s) = Some c \<longrightarrow>
      (layoutUpdated c \<longrightarrow> updateLayout k s = s) \<and>
      (\<not> layoutUpdated c \<longrightarrow>
         measured (updateLayout k s) = measured s @ [node c] \<and>
         getComponent k (focusableComponents (updateLayout k s))
           = Some (c\<lparr>layout := (measureLayout s (node c))\<lparr>layout_node := node c\<rparr>\<rparr>) \<and>
         map layoutUpdated (focusableComponents (updateLayout k s))
           = map layoutUpdated (focusableComponents s) \<and>
         measured (updateLayout k (updateLayout k s)) = measured s @ [node c, node c]))"
proof (intro conjI allI impI)
  assume "getComponent k (focusableComponents s) = None"
  then show "updateLayout k s = s" by (rule updateLayout_unregistered)
next
  fix c assume "getComponent k (focusableComponents s) = Some c" "layoutUpdated c"
  then show "updateLayout k s = s" by (rule updateLayout_flagged)
next
  fix c assume c: "getComponent k (focusableComponents s) = Some c" and f: "\<not> layoutUpdated c"
  note m = updateLayout_measures[OF c f]
  show "measured (updateLayout k s) = measured s @ [node c]" by (rule m(1))
  show "getComponent k (focusableComponents (updateLayout k s))
           = Some (c\<lparr>layout := (measureLayout s (node c))\<lparr>layout_node := node c\<rparr>\<rparr>)"
    by (rule m(2))
  show "map layoutUpdated (focusableComponents (updateLayout k s))
           = map layoutUpdated (focusableComponents s)" by (rule m(3))
  have f': "\<not> layoutUpdated (c\<lparr>layout := (measureLayout s (node c))\<lparr>layout_node := node c\<rparr>\<rparr>)"
    using f by simp
  from updateLayout_measures(1)[OF m(2) f'] m(1)
  show "measured (updateLayout k (updateLayout k s)) = measured s @ [node c, node c]" by simp
qed

lemma singleService_A:
  "getComponent ''A'' (focusableComponents singleService)
     = Some (exampleComponent ''A'' ''SN:ROOT'' (exampleLayout 5 5 10 10))"
  by (simp add: singleService_def exampleService_def getComponent_def exampleComponent_def)

theorem updateLayout_effect_witness:
  "getComponent ''A'' (focusableComponents singleService)
     = Some (exampleComponent ''A'' ''SN:ROOT'' (exampleLayout 5 5 10 10)) \<and>
   \<not> layoutUpdated (exampleComponent ''A'' ''SN:ROOT'' (exampleLayout 5 5 10 10)) \<and>
   measured (updateLayout ''A'' singleService) = [0] \<and>
   map_option layout (getComponent ''A'' (focusableComponents (updateLayout ''A'' singleService)))
     = Some (exampleLayout 0 0 10 10)"
proof -
  let ?A = "exampleComponent ''A'' ''SN:ROOT'' (exampleLayout 5 5 10 10)"
  have f: "\<not> layoutUpdated ?A" by (simp add: exampleComponent_def)
  from updateLayout_effect[of "''A''" singleService] singleService_A f
  have "measured (updateLayout ''A'' singleService) = measured singleService @ [node ?A]"
    and "getComponent ''A'' (focusableComponents (updateLayout ''A'' singleService))
           = Some (?A\<lparr>layout := (measureLayout singleService (node ?A))\<lparr>layout_node := node ?A\<rparr>\<rparr>)"
    by blast+
  then show ?thesis using singleService_A f
    by (simp add: singleService_def exampleService_def exampleComponent_def exampleLayout_def)
qed

theorem updateLayout_remeasures_counterexample:
  "map layoutUpdated (focusableComponents (updateLayout ''A'' singleService)) = [False] \<and>
   measured (updateLayout ''A'' (updateLayout ''A'' singleService)) = [0, 0]"
proof -
  let ?A = "exampleComponent ''A'' ''SN:ROOT'' (exampleLayout 5 5 10 10)"
  have f: "\<not> layoutUpdated ?A" by (simp add: exampleComponent_def)
  note m = updateLayout_measures[OF singleService_A f]
  have f': "\<not> layoutUpdated (?A\<lparr>layout := (measureLayout singleService (node ?A))\<lparr>layout_node := node ?A\<rparr>\<rparr>)"
    by (simp add: exampleComponent_def)
  have "map layoutUpdated (focusableComponents (updateLayout ''A'' singleService)) = [False]"
    unfolding m(3) by (simp add: singleService_def exampleService_def exampleComponent_def)
  moreover have "measured (updateLayout ''A'' (updateLayout ''A'' singleService)) = [0, 0]"
    unfolding updateLayout_measures(1)[OF m(2) f'] m(1)
    by (simp add: singleService_def exampleService_def exampleComponent_def)
  ultimately show ?thesis by simp
qed

section \<open>Updating a component\<close>

lemma updatePointerSupport_registered:
  "getComponent k (focusableComponents s) = Some c \<Longrightarrow>
   updatePointerSupport k support s =
     Inr (s\<lparr>onmouseenter := (if support then insert (node c) (onmouseenter s)
                              else onmouseenter s - {node c})\<rparr>)"
  by (simp add: updatePointerSupport_def)

lemma getComponent_modifyComponent_other:
  assumes "\<And>c. focusKey (f c) = focusKey c" and "k' \<noteq> k"
  shows "getComponent k' (modifyComponent k f cs) = getComponent k' cs"
proof -
  have "getComponent k' (modifyComponent k f cs)
        = map_option (\<lambda>c. if focusKey c = k then f c else c) (getComponent k' cs)"
    by (rule getComponent_modifyComponent) (rule assms(1))
  also have "\<dots> = getComponent k' cs"
  proof (cases "getComponent k' cs")
    case None
    then show ?thesis by simp
  next
    case (Some c)
    from getComponent_Some[OF Some] assms(2) show ?thesis by (simp add: Some)
  qed
  finally show ?thesis .
qed

lemma updateFocusable_unregistered:
  "getComponent k (focusableComponents s) = None \<Longrightarrow> updateFocusable k payload s = Inr s"
  by (simp add: updateFocusable_def)

lemma updateFocusable_registered:
  fixes payload :: FocusableComponentUpdatePayload
  assumes c: "getComponent k (focusableComponents s) = Some c"
  defines "c1 \<equiv> c\<lparr>preferredChildFocusKey := upd_preferredChildFocusKey payload,
                   focusable := upd_focusable payload,
                   isFocusBoundary := upd_isFocusBoundary payload,
                   onEnterPress := upd_onEnterPress payload,
                   onEnterRelease := upd_onEnterRelease payload,
                   onArrowPress := upd_onArrowPress payload,
                   onFocus := upd_onFocus payload,
                   onBlur := upd_onBlur payload,
                   onNavigate := upd_onNavigate payload\<rparr>"
  defines "c2 \<equiv> (case upd_node payload of None \<Rightarrow> c1 | Some n \<Rightarrow> c1\<lparr>node := n\<rparr>)"
  shows "\<exists>s'. updateFocusable k payload s = Inr s' \<and>
           getComponent k (focusableComponents s') = Some c2 \<and>
           (\<forall>k'. k' \<noteq> k \<longrightarrow> getComponent k' (focusableComponents s')
                                = getComponent k' (focusableComponents s)) \<and>
           map focusKey (focusableComponents s') = map focusKey (focusableComponents s) \<and>
           currentFocusKey s' = currentFocusKey s \<and>
           parentsHavingFocusedChild s' = parentsHavingFocusedChild s \<and>
           callbacks s' = callbacks s \<and> measured s' = measured s \<and>
           onmouseenter s' = (if upd_pointerSupport payload
                              then insert (node c2) (onmouseenter s - {node c})
                              else onmouseenter s - {node c} - {node c2})"
proof -
  from getComponent_Some[OF c] have key: "focusKey c = k" by simp
  define f :: "FocusableComponent \<Rightarrow> FocusableComponent"
    where "f = (\<lambda>c. c\<lparr>preferredChildFocusKey := upd_preferredChildFocusKey payload,
                   focusable := upd_focusable payload,
                   isFocusBoundary := upd_isFocusBoundary payload,
                   onEnterPress := upd_onEnterPress payload,
                   onEnterRelease := upd_onEnterRelease payload,
                   onArrowPress := upd_onArrowPress payload,
                   onFocus := upd_onFocus payload,
                   onBlur := upd_onBlur payload,
                   onNavigate := upd_onNavigate payload\<rparr>)"
  define g :: "FocusableComponent \<Rightarrow> FocusableComponent"
    where "g = (\<lambda>c. case upd_node payload of None \<Rightarrow> c | Some n \<Rightarrow> c\<lparr>node := n\<rparr>)"
  have fk: "\<And>c. focusKey (f c) = focusKey c" and gk: "\<And>c. focusKey (g c) = focusKey c"
    by (simp_all add: f_def g_def split: option.splits)
  have fc: "f c = c1" by (simp add: f_def c1_def)
  have gc: "g c1 = c2" by (simp add: g_def c2_def)
  have n1: "node c1 = node c" by (simp add: c1_def)
  define cs1 where "cs1 = modifyComponent k f (focusableComponents s)"
  define cs3 where "cs3 = modifyComponent k g cs1"
  have g1: "getComponent k cs1 = Some c1"
    unfolding cs1_def by (simp add: getComponent_modifyComponent[of f, OF fk] c key fc)
  have k1: "focusKey c1 = k" using fk[of c] fc key by simp
  have g3: "getComponent k cs3 = Some c2"
    unfolding cs3_def by (simp add: getComponent_modifyComponent[of g, OF gk] g1 k1 gc)
  have other: "getComponent k' cs3 = getComponent k' (focusableComponents s)" if "k' \<noteq> k" for k'
    unfolding cs3_def cs1_def
    by (simp add: getComponent_modifyComponent_other[of g, OF gk that]
                  getComponent_modifyComponent_other[of f, OF fk that])
  have keys: "map focusKey cs3 = map focusKey (focusableComponents s)"
    unfolding cs3_def cs1_def
    by (simp add: map_modifyComponent[of focusKey g, OF gk] map_modifyComponent[of focusKey f, OF fk])
  define s1 where "s1 = s\<lparr>focusableComponents := cs1\<rparr>"
  define s2 where "s2 = s1\<lparr>onmouseenter := onmouseenter s1 - {node c1}\<rparr>"
  define s3 where "s3 = s2\<lparr>focusableComponents := cs3\<rparr>"
  define s4 where "s4 = s3\<lparr>onmouseenter :=
     (if upd_pointerSupport payload then insert (node c2) (onmouseenter s3)
      else onmouseenter s3 - {node c2})\<rparr>"
  have p1: "updatePointerSupport k False s1 = Inr s2"
    using updatePointerSupport_registered[of k s1 c1 False] g1 by (simp add: s1_def s2_def)
  have s3_alt: "(case upd_node payload of
                None \<Rightarrow> s2
              | Some n \<Rightarrow> s2\<lparr>focusableComponents :=
                               modifyComponent k (\<lambda>c. c\<lparr>node := n\<rparr>) (focusableComponents s2)\<rparr>) = s3"
  proof (cases "upd_node payload")
    case None
    then have "g = (\<lambda>c. c)" by (simp add: g_def)
    then have "cs3 = cs1" by (simp add: cs3_def modifyComponent_def)
    with None show ?thesis by (simp add: s3_def s2_def s1_def)
  next
    case (Some n)
    then have "g = (\<lambda>c. c\<lparr>node := n\<rparr>)" by (simp add: g_def)
    with Some show ?thesis by (simp add: s3_def s2_def s1_def cs3_def)
  qed
  have p2: "updatePointerSupport k (upd_pointerSupport payload) s3 = Inr s4"
    using updatePointerSupport_registered[of k s3 c2 "upd_pointerSupport payload"] g3
    by (simp add: s3_def s4_def)
  have res: "updateFocusable k payload s = Inr s4"
    unfolding updateFocusable_def
    using c p1 p2 s3_alt
    by (simp add: Let_def f_def[symmetric] cs1_def[symmetric] s1_def[symmetric])
  have "getComponent k (focusableComponents s4) = Some c2"
    using g3 by (simp add: s4_def s3_def)
  moreover have "\<forall>k'. k' \<noteq> k \<longrightarrow> getComponent k' (focusableComponents s4)
                                = getComponent k' (focusableComponents s)"
    using other by (simp add: s4_def s3_def)
  moreover have "map focusKey (focusableComponents s4) = map focusKey (focusableComponents s)"
    using keys by (simp add: s4_def s3_def)
  moreover have "currentFocusKey s4 = currentFocusKey s"
    "parentsHavingFocusedChild s4 = parentsHavingFocusedChild s"
    "callbacks s4 = callbacks s" "measured s4 = measured s"
    by (simp_all add: s4_def s3_def s2_def s1_def)
  moreover have "onmouseenter s4 = (if upd_pointerSupport payload
                              then insert (node c2) (onmouseenter s - {node c})
                              else onmouseenter s - {node c} - {node c2})"
    by (simp add: s4_def s3_def s2_def s1_def n1)
  ultimately show ?thesis using res by blast
qed


text \<open>
  Claim C8, amended.  For a registered component, \<open>updateFocusable\<close> never raises and
  overwrites \<open>preferredChildFocusKey\<close>, \<open>focusable\<close>, \<open>isFocusBoundary\<close> and the handlers
  \<open>onEnterPress\<close>, \<open>onEnterRelease\<close>, \<open>onArrowPress\<close>, \<open>onFocus\<close>, \<open>onBlur\<close>, \<open>onNavigate\<close> with
  the payload's values, so a \<open>preferredChildFocusKey\<close> left out of the payload is cleared;
  \<open>node\<close> is replaced only when the payload has one.  All other fields of the component,
  all other components, the focus key and the trace of callbacks are preserved.
\<close>

theorem updateFocusable_fields:
  assumes "getComponent k (focusableComponents s) = Some c"
  shows "\<exists>s' c'. updateFocusable k payload s = Inr s' \<and>
           getComponent k (focusableComponents s') = Some c' \<and>
           preferredChildFocusKey c' = upd_preferredChildFocusKey payload \<and>
           focusable c' = upd_focusable payload \<and>
           isFocusBoundary c' = upd_isFocusBoundary payload \<and>
           onEnterPress c' = upd_onEnterPress payload \<and>
           onEnterRelease c' = upd_onEnterRelease payload \<and>
           onArrowPress c' = upd_onArrowPress payload \<and>
           onFocus c' = upd_onFocus payload \<and>
           onBlur c' = upd_onBlur payload \<and>
           onNavigate c' = upd_onNavigate payload \<and>
           node c' = (case upd_node payload of None \<Rightarrow> node c | Some n \<Rightarrow> n) \<and>
           focusKey c' = focusKey c \<and>
           parentFocusKey c' = parentFocusKey c \<and>
           onUpdateFocus c' = onUpdateFocus c \<and>
           onUpdateHasFocusedChild c' = onUpdateHasFocusedChild c \<and>
           saveLastFocusedChild c' = saveLastFocusedChild c \<and>
           trackChildren c' = trackChildren c \<and>
           pointerSupport c' = pointerSupport c \<and>
           autoRestoreFocus c' = autoRestoreFocus c \<and>
           lastFocusedChildKey c' = lastFocusedChildKey c \<and>
           layout c' = layout c \<and>
           layoutUpdated c' = layoutUpdated c \<and>
           (\<forall>k'. k' \<noteq> k \<longrightarrow> getComponent k' (focusableComponents s')
                                = getComponent k' (focusableComponents s)) \<and>
           currentFocusKey s' = currentFocusKey s \<and>
           callbacks s' = callbacks s"
proof -
  define c1 where "c1 = c\<lparr>preferredChildFocusKey := upd_preferredChildFocusKey payload,
                   focusable := upd_focusable payload,
                   isFocusBoundary := upd_isFocusBoundary payload,
                   onEnterPress := upd_onEnterPress payload,
                   onEnterRelease := upd_onEnterRelease payload,
                   onArrowPress := upd_onArrowPress payload,
                   onFocus := upd_onFocus payload,
                   onBlur := upd_onBlur payload,
                   onNavigate := upd_onNavigate payload\<rparr>"
  define c2 where "c2 = (case upd_node payload of None \<Rightarrow> c1 | Some n \<Rightarrow> c1\<lparr>node := n\<rparr>)"
  from updateFocusable_registered[OF assms, of payload]
  obtain s' where res: "updateFocusable k payload s = Inr s'"
    and g: "getComponent k (focusableComponents s') = Some c2"
    and other: "\<forall>k'. k' \<noteq> k \<longrightarrow> getComponent k' (focusableComponents s')
                                = getComponent k' (focusableComponents s)"
    and frame: "currentFocusKey s' = currentFocusKey s" "callbacks s' = callbacks s"
    unfolding c1_def c2_def by blast
  have over: "preferredChildFocusKey c2 = upd_preferredChildFocusKey payload"
    "focusable c2 = upd_focusable payload" "isFocusBoundary c2 = upd_isFocusBoundary payload"
    "onEnterPress c2 = upd_onEnterPress payload" "onEnterRelease c2 = upd_onEnterRelease payload"
    "onArrowPress c2 = upd_onArrowPress payload" "onFocus c2 = upd_onFocus payload"
    "onBlur c2 = upd_onBlur payload" "onNavigate c2 = upd_onNavigate payload"
    "node c2 = (case upd_node payload of None \<Rightarrow> node c | Some n \<Rightarrow> n)"
    by (cases "upd_node payload"; simp add: c2_def c1_def)+
  have keep: "focusKey c2 = focusKey c" "parentFocusKey c2 = parentFocusKey c"
    "onUpdateFocus c2 = onUpdateFocus c" "onUpdateHasFocusedChild c2 = onUpdateHasFocusedChild c"
    "saveLastFocusedChild c2 = saveLastFocusedChild c" "trackChildren c2 = trackChildren c"
    "pointerSupport c2 = pointerSupport c" "autoRestoreFocus c2 = autoRestoreFocus c"
    "lastFocusedChildKey c2 = lastFocusedChildKey c" "layout c2 = layout c"
    "layoutUpdated c2 = layoutUpdated c"
    by (cases "upd_node payload"; simp add: c2_def c1_def)+
  from res g over keep other frame show ?thesis by blast
qed

lemma preferringService_P:
  "getComponent ''P'' (focusableComponents preferringService)
     = Some ((exampleComponent ''P'' ''SN:ROOT'' (exampleLayout 0 0 10 10))
               \<lparr>preferredChildFocusKey := Some ''C''\<rparr>)"
  by (simp add: preferringService_def exampleService_def getComponent_def exampleComponent_def)

theorem updateFocusable_fields_witness:
  "getComponent ''P'' (focusableComponents preferringService)
     = Some ((exampleComponent ''P'' ''SN:ROOT'' (exampleLayout 0 0 10 10))
               \<lparr>preferredChildFocusKey := Some ''C''\<rparr>) \<and>
   (\<exists>s' c'. updateFocusable ''P'' omittingPayload preferringService = Inr s' \<and>
             getComponent ''P'' (focusableComponents s') = Some c' \<and>
             preferredChildFocusKey c' = None \<and> node c' = 0 \<and> parentFocusKey c' = ''SN:ROOT'' \<and>
             getComponent ''C'' (focusableComponents s')
               = getComponent ''C'' (focusableComponents preferringService))"
proof -
  let ?P = "(exampleComponent ''P'' ''SN:ROOT'' (exampleLayout 0 0 10 10))
              \<lparr>preferredChildFocusKey := Some ''C''\<rparr>"
  from updateFocusable_fields[OF preferringService_P, of omittingPayload]
  obtain s' c' where "updateFocusable ''P'' omittingPayload preferringService = Inr s'"
    "getComponent ''P'' (focusableComponents s') = Some c'"
    "preferredChildFocusKey c' = upd_preferredChildFocusKey omittingPayload"
    "node c' = (case upd_node omittingPayload of None \<Rightarrow> node ?P | Some n \<Rightarrow> n)"
    "parentFocusKey c' = parentFocusKey ?P"
    "\<forall>k'. k' \<noteq> ''P'' \<longrightarrow> getComponent k' (focusableComponents s')
                                = getComponent k' (focusableComponents preferringService)"
    by blast
  then have "updateFocusable ''P'' omittingPayload preferringService = Inr s' \<and>
             getComponent ''P'' (focusableComponents s') = Some c' \<and>
             preferredChildFocusKey c' = None \<and> node c' = 0 \<and> parentFocusKey c' = ''SN:ROOT'' \<and>
             getComponent ''C'' (focusableComponents s')
               = getComponent ''C'' (focusableComponents preferringService)"
    by (simp add: omittingPayload_def exampleComponent_def)
  with preferringService_P show ?thesis by blast
qed

theorem updateFocusable_clears_counterexample:
  "map preferredChildFocusKey (focusableComponents preferringService) = [Some ''C'', None] \<and>
   map_sum id (\<lambda>s. map preferredChildFocusKey (focusableComponents s))
     (updateFocusable ''P'' omittingPayload preferringService) = Inr [None, None]"
  by (simp add: updateFocusable_def updatePointerSupport_def getComponent_def modifyComponent_def
      preferringService_def omittingPayload_def exampleService_def exampleComponent_def Let_def)

section \<open>Committing a focus change\<close>

subsection \<open>What a focus change leaves alone\<close>


lemma components_fire [simp]: "focusableComponents (fire cb s) = focusableComponents s"
  by (simp add: fire_def)

lemma same_updateLayout:
  "map forgetLayout (focusableComponents (updateLayout k s))
     = map forgetLayout (focusableComponents s)"
  using layoutsOnly_updateLayout[of s k] by (simp add: layoutsOnly_def)










subsection \<open>The callbacks of a focus change\<close>



lemma fire_fields [simp]:
  "callbacks (fire cb s) = callbacks s @ [cb]"
  "currentFocusKey (fire cb s) = currentFocusKey s"
  "parentsHavingFocusedChild (fire cb s) = parentsHavingFocusedChild s"
  by (simp_all add: fire_def)







lemma saveLastFocusedChildKey_fields [simp]:
  "callbacks (saveLastFocusedChildKey pc key s) = callbacks s"
  "currentFocusKey (saveLastFocusedChildKey pc key s) = currentFocusKey s"
  "parentsHavingFocusedChild (saveLastFocusedChildKey pc key s) = parentsHavingFocusedChild s"
  by (simp_all add: saveLastFocusedChildKey_def split: option.splits)







subsection \<open>Focus on the key that holds it\<close>








subsection \<open>Focus on a key that is not registered\<close>




section \<open>Removing a component\<close>

subsection \<open>The removal\<close>


lemma removeFocusable_unregistered:
  "getComponent n (focusableComponents s) = None \<Longrightarrow> removeFocusable n s = Some (Inr s)"
  by (simp add: removeFocusable_def)









section \<open>The later revision of the focus operation at the same inputs\<close>

text \<open>In the later revision of the service, \<open>focus\<close> on the focused leaf and \<open>focus\<close> on
  an unregistered key keep the focus key and invoke no callback.\<close>

lemmas focus_defs = focus_def propertyKey_def saveLastFocusedChildKey_def fire_def
  getNodeLayoutByFocusKey_def updateLayout_def modifyComponent_def getComponent_def
  updateParentsHasFocusedChild_def difference_def updateParentsLastFocusedChild_def
  isParticipatingFocusableComponent_def Let_def

lemma focus_same_key_silent:
  "map_option (\<lambda>s. (currentFocusKey s, callbacks s)) (focus ''A'' singleService)
     = Some (Some ''A'', [])"
  by (simp add: focus_defs getValidLeafFocusKey.simps collectParents.simps
      climbLastFocusedChild.simps singleService_def exampleService_def
      exampleComponent_def exampleLayout_def)

lemma focus_unknown_key_silent:
  "map_option (\<lambda>s. (currentFocusKey s, callbacks s)) (focus ''unknown-id'' singleService)
     = Some (Some ''A'', [])"
  by (simp add: focus_defs getValidLeafFocusKey.simps collectParents.simps
      climbLastFocusedChild.simps singleService_def exampleService_def
      exampleComponent_def exampleLayout_def)

end
